theory Spec2Isabelle
  imports Complex_Main "HOL-Library.Multiset"
begin

section \<open>TreeNetworkNode: the children of a node of the communication tree\<close>

text \<open>
  Source: \<^verbatim>\<open>src/share/src/bi/mpi/TreeNetworkNode.cpp\<close>.

  The class holds a parent communicator and three containers of child communicators,
  \<^verbatim>\<open>comms\<close>, \<^verbatim>\<open>newcomms\<close> and \<^verbatim>\<open>oldcomms\<close>. The member functions that the
  source calls on them (\<^verbatim>\<open>insert(x)\<close>, \<^verbatim>\<open>insert(first, last)\<close>,
  \<^verbatim>\<open>erase(first, last)\<close>, \<^verbatim>\<open>clear()\<close>, \<^verbatim>\<open>size()\<close>, \<^verbatim>\<open>begin()\<close>, \<^verbatim>\<open>end()\<close>)
  are those of the ordered set of the standard library. An ordered set is modelled by the
  list of its elements in iteration order (strictly increasing), and an iterator by the
  container it points into together with a position in that order.

  The \<^verbatim>\<open>omp critical\<close> regions make each member function atomic; the model is sequential,
  one call after the other.
\<close>

datatype fault = UndefinedBehaviour | AssertionFailed

datatype container = Comms | Newcomms | Oldcomms

datatype iterator = Iterator container nat

text \<open>\<^verbatim>\<open>c.begin()\<close> and \<^verbatim>\<open>c.end()\<close> of the container named \<open>w\<close> whose elements are \<open>xs\<close>.\<close>

definition begin_iterator :: "container \<Rightarrow> 'c list \<Rightarrow> iterator" where
  "begin_iterator w xs = Iterator w 0"

definition end_iterator :: "container \<Rightarrow> 'c list \<Rightarrow> iterator" where
  "end_iterator w xs = Iterator w (length xs)"

text \<open>\<^verbatim>\<open>c.insert(x)\<close>: an ordered set keeps one copy of each element, in order.\<close>

definition set_insert :: "'c::linorder \<Rightarrow> 'c list \<Rightarrow> 'c list" where
  "set_insert x xs = (if x \<in> set xs then xs else insort x xs)"

text \<open>
  The elements met when walking from \<open>q1\<close> to \<open>q2\<close>, both iterators of the container
  named \<open>w\<close> with elements \<open>src\<close>. Walking a range whose ends lie in different containers, or
  in the wrong order, is undefined.
\<close>

definition range_elements :: "container \<Rightarrow> 'c list \<Rightarrow> iterator \<Rightarrow> iterator \<Rightarrow> fault + 'c list" where
  "range_elements w src q1 q2 =
     (case (q1, q2) of
        (Iterator w1 i, Iterator w2 j) \<Rightarrow>
          if w1 = w \<and> w2 = w \<and> i \<le> j \<and> j \<le> length src
          then Inr (take (j - i) (drop i src))
          else Inl UndefinedBehaviour)"

text \<open>\<^verbatim>\<open>c.insert(first, last)\<close>: inserts every element of a range of another container.\<close>

definition set_insert_range :: "'c::linorder list \<Rightarrow> 'c list \<Rightarrow> 'c list" where
  "set_insert_range ys xs = fold set_insert ys xs"

text \<open>
  \<^verbatim>\<open>c.erase(first, last)\<close> of the container named \<open>w\<close> with elements \<open>xs\<close>. The standard
  library erases the elements \<^emph>\<open>of c\<close> that lie between two iterators \<^emph>\<open>into c\<close>: it unlinks
  the nodes the iterators walk over, it does not look elements up by value. With iterators
  into another container the call is undefined behaviour, except that an empty range
  (\<open>q1 = q2\<close>) makes the erasing loop of every implementation stop at once, which is
  modelled as leaving \<open>c\<close> as it is.
\<close>

definition set_erase_range :: "container \<Rightarrow> 'c list \<Rightarrow> iterator \<Rightarrow> iterator \<Rightarrow> fault + 'c list" where
  "set_erase_range w xs q1 q2 =
     (case (q1, q2) of
        (Iterator w1 i, Iterator w2 j) \<Rightarrow>
          if w1 = w \<and> w2 = w \<and> i \<le> j \<and> j \<le> length xs
          then Inr (take i xs @ drop j xs)
          else if q1 = q2 then Inr xs
          else Inl UndefinedBehaviour)"

text \<open>
  Modelled from the spec: the members of the class are declared in
  \<^verbatim>\<open>TreeNetworkNode.hpp\<close>, which is not among the sources. The node has one parent
  link and three sets of child links: the active set \<^verbatim>\<open>comms\<close>, the set pending for
  addition \<^verbatim>\<open>newcomms\<close> and the set pending for removal \<^verbatim>\<open>oldcomms\<close>.
\<close>

record 'c TreeNetworkNode =
  parent :: 'c
  comms :: "'c list"
  newcomms :: "'c list"
  oldcomms :: "'c list"

text \<open>The constructor; \<open>MPI_COMM_NULL\<close> is a constant of the MPI library, taken as a parameter.\<close>

definition TreeNetworkNode_new :: "'c \<Rightarrow> 'c TreeNetworkNode" where
  "TreeNetworkNode_new MPI_COMM_NULL =
     \<lparr>parent = MPI_COMM_NULL, comms = [], newcomms = [], oldcomms = []\<rparr>"

definition setParent :: "'c \<Rightarrow> 'c TreeNetworkNode \<Rightarrow> 'c TreeNetworkNode" where
  "setParent comm node = node\<lparr>parent := comm\<rparr>"

definition addChild :: "'c::linorder \<Rightarrow> 'c TreeNetworkNode \<Rightarrow> int \<times> 'c TreeNetworkNode" where
  "addChild comm node =
     (let n = int (length (comms node) + length (newcomms node));
          node = node\<lparr>newcomms := set_insert comm (newcomms node)\<rparr>
      in (n, node))"

definition removeChild :: "'c::linorder \<Rightarrow> 'c TreeNetworkNode \<Rightarrow> 'c TreeNetworkNode" where
  "removeChild comm node = node\<lparr>oldcomms := set_insert comm (oldcomms node)\<rparr>"

definition updateChildren :: "'c::linorder TreeNetworkNode \<Rightarrow> fault + (int \<times> 'c TreeNetworkNode)" where
  "updateChildren node =
     (case range_elements Newcomms (newcomms node)
             (begin_iterator Newcomms (newcomms node)) (end_iterator Newcomms (newcomms node)) of
        Inl f \<Rightarrow> Inl f
      | Inr added \<Rightarrow>
          let node = node\<lparr>comms := set_insert_range added (comms node)\<rparr>;
              node = node\<lparr>newcomms := []\<rparr>
          in (case set_erase_range Comms (comms node)
                     (begin_iterator Oldcomms (oldcomms node)) (end_iterator Oldcomms (oldcomms node)) of
                Inl f \<Rightarrow> Inl f
              | Inr kept \<Rightarrow>
                  let node = node\<lparr>comms := kept\<rparr>;
                      node = node\<lparr>oldcomms := []\<rparr>;
                      n = int (length (comms node))
                  in if length (newcomms node) = 0 \<and> length (oldcomms node) = 0
                     then Inr (n, node) else Inl AssertionFailed))"

text \<open>A call of \<^verbatim>\<open>addChild\<close> or \<^verbatim>\<open>removeChild\<close>, and a sequence of them run in order.\<close>

datatype 'c call = AddChild 'c | RemoveChild 'c

fun run_call :: "'c::linorder call \<Rightarrow> 'c TreeNetworkNode \<Rightarrow> 'c TreeNetworkNode" where
  "run_call (AddChild c) node = snd (addChild c node)"
| "run_call (RemoveChild c) node = removeChild c node"

definition run_calls :: "'c::linorder call list \<Rightarrow> 'c TreeNetworkNode \<Rightarrow> 'c TreeNetworkNode" where
  "run_calls cs node = fold run_call cs node"

fun added_links :: "'c call list \<Rightarrow> 'c set" where
  "added_links [] = {}"
| "added_links (AddChild c # cs) = insert c (added_links cs)"
| "added_links (RemoveChild c # cs) = added_links cs"

fun removed_links :: "'c call list \<Rightarrow> 'c set" where
  "removed_links [] = {}"
| "removed_links (AddChild c # cs) = removed_links cs"
| "removed_links (RemoveChild c # cs) = insert c (removed_links cs)"


section \<open>Floating-point values\<close>

text \<open>
  A \<^verbatim>\<open>double\<close> is modelled by the value it stands for: a real number, one of the two
  infinities, or not-a-number. The arithmetic follows IEEE 754 on the special values and
  is exact on the finite ones: rounding, overflow to infinity and the sign of zero are not
  modelled.
\<close>

datatype double = Fin real | PInf | NInf | NaN

text \<open>\<^verbatim>\<open>bi::is_finite\<close>.\<close>

fun is_finite :: "double \<Rightarrow> bool" where
  "is_finite (Fin x) = True"
| "is_finite d = False"

fun dneg :: "double \<Rightarrow> double" where
  "dneg (Fin x) = Fin (- x)"
| "dneg PInf = NInf"
| "dneg NInf = PInf"
| "dneg NaN = NaN"

fun dadd :: "double \<Rightarrow> double \<Rightarrow> double" where
  "dadd (Fin x) (Fin y) = Fin (x + y)"
| "dadd NaN d = NaN"
| "dadd d NaN = NaN"
| "dadd PInf NInf = NaN"
| "dadd NInf PInf = NaN"
| "dadd PInf d = PInf"
| "dadd d PInf = PInf"
| "dadd NInf d = NInf"
| "dadd d NInf = NInf"

definition dsub :: "double \<Rightarrow> double \<Rightarrow> double" where
  "dsub a b = dadd a (dneg b)"

text \<open>The comparison \<^verbatim>\<open><\<close>: false as soon as one side is not a number.\<close>

fun dless :: "double \<Rightarrow> double \<Rightarrow> bool" where
  "dless (Fin x) (Fin y) = (x < y)"
| "dless NaN d = False"
| "dless d NaN = False"
| "dless d NInf = False"
| "dless PInf d = False"
| "dless NInf d = True"
| "dless d PInf = True"

text \<open>\<^verbatim>\<open>bi::log\<close> and \<^verbatim>\<open>bi::exp\<close>.\<close>

fun dlog :: "double \<Rightarrow> double" where
  "dlog (Fin x) = (if 0 < x then Fin (ln x) else if x = 0 then NInf else NaN)"
| "dlog PInf = PInf"
| "dlog NInf = NaN"
| "dlog NaN = NaN"

fun dexp :: "double \<Rightarrow> double" where
  "dexp (Fin x) = Fin (exp x)"
| "dexp PInf = PInf"
| "dexp NInf = Fin 0"
| "dexp NaN = NaN"

text \<open>Division: a finite value divided by zero is an infinity, and zero by zero is not a number.\<close>

fun ddiv :: "double \<Rightarrow> double \<Rightarrow> double" where
  "ddiv (Fin x) (Fin y) =
     (if y \<noteq> 0 then Fin (x / y) else if x = 0 then NaN else if 0 < x then PInf else NInf)"
| "ddiv NaN d = NaN"
| "ddiv d NaN = NaN"
| "ddiv (Fin x) d = Fin 0"
| "ddiv PInf (Fin y) = (if 0 \<le> y then PInf else NInf)"
| "ddiv NInf (Fin y) = (if 0 \<le> y then NInf else PInf)"
| "ddiv d e = NaN"

text \<open>The conversion \<^verbatim>\<open>double(n)\<close> of an \<^verbatim>\<open>int\<close>.\<close>

definition double_of_int :: "int \<Rightarrow> double" where
  "double_of_int n = Fin (real_of_int n)"


section \<open>MarginalSIR: the data\<close>

text \<open>
  Source: \<^verbatim>\<open>src/share/src/bi/sampler/MarginalSIR.hpp\<close>, built without \<^verbatim>\<open>ENABLE_MPI\<close> and
  with \<^verbatim>\<open>ENABLE_DIAGNOSTICS\<close> other than 3. C++ \<^verbatim>\<open>int\<close> values are modelled by integers:
  the counters of the source stay far below the range of \<^verbatim>\<open>int\<close>. The vectors of the
  source are indexed without a check; a vector is a list, read with \<open>xs ! i\<close> and written
  with \<open>xs[i := v]\<close>, and what is proved about a slot is proved for an index within the
  bounds, which the size invariant of the population provides.
\<close>

text \<open>
  Modelled from the spec: \<^verbatim>\<open>Schedule.hpp\<close> is not among the sources. A schedule is a
  finite sequence of elements, each with a time, an output index, an observation index and
  an "is observed" flag; a \<^verbatim>\<open>ScheduleIterator\<close> is a position in that sequence.
\<close>

record ScheduleElement =
  getTime :: real
  indexOutput :: nat
  indexObs :: nat
  isObserved :: bool

type_synonym Schedule = "ScheduleElement list"

type_synonym ScheduleIterator = nat

text \<open>
  The state of one \<open>\<theta>\<close>-particle, as far as the sampler reads and writes it: the state
  type of the inner filter is a template parameter, whose remaining content is \<open>payload\<close>.
\<close>

record 'x FilterState =
  logLikelihood :: double
  logPrior :: double
  logProposal :: double
  logIncrements :: "double list"
  payload :: 'x

text \<open>
  Modelled from the spec: the population type \<^verbatim>\<open>S1\<close> of the sampler is a template
  parameter whose class is not among the sources. It owns one inner state and one output
  buffer per particle, the scratch pair \<^verbatim>\<open>s2\<close>, \<^verbatim>\<open>out2\<close>, the log-weights, the
  ancestors, and the scalars \<^verbatim>\<open>ess\<close> and \<^verbatim>\<open>logLikelihood\<close> with the per-observation
  increments.
\<close>

record ('x, 'o) SIRState =
  s1s :: "'x FilterState list"
  out1s :: "'o list"
  s2 :: "'x FilterState"
  out2 :: 'o
  logWeights :: "double list"
  ancestors :: "int list"
  ess :: double
  logLikelihood :: double
  logIncrements :: "double list"

text \<open>Modelled from the spec: \<^verbatim>\<open>s.size()\<close>, the number of particles of the population.\<close>

definition size_of :: "('x, 'o) SIRState \<Rightarrow> nat" where
  "size_of s = length (s1s s)"

text \<open>
  The population size invariant of the specification:
  \<^verbatim>\<open>len(logWeights) == len(ancestors) == len(s1s) == len(out1s) == size\<close>.
\<close>

definition size_invariant :: "('x, 'o) SIRState \<Rightarrow> bool" where
  "size_invariant s =
     (length (logWeights s) = size_of s \<and> length (ancestors s) = size_of s
      \<and> length (out1s s) = size_of s)"

text \<open>
  The exceptions that the sampler catches. The collaborators are modelled as functions of
  the arguments they are given by reference, returning the new values of those arguments;
  \<^verbatim>\<open>propose\<close> and \<^verbatim>\<open>filter\<close> return in addition the exception they left with, if any,
  together with the arguments as they were at that moment. An exception of another class, or
  one raised elsewhere, would leave the sampler and is not modelled.
\<close>

datatype exception = CholeskyException | ParticleFilterDegeneratedException

text \<open>One line written by \<^verbatim>\<open>report\<close> on \<^verbatim>\<open>std::cerr\<close>: index, time, ESS, acceptance rate.\<close>

record report_line =
  line_index :: nat
  line_time :: real
  line_ess :: double
  line_rate :: "double option"

text \<open>
  The collaborators: the filter \<^verbatim>\<open>F\<close>, the adapter \<^verbatim>\<open>A\<close>, the resampler \<^verbatim>\<open>R\<close>, the
  random number generator, the output \<^verbatim>\<open>IO1\<close>, and the two reductions of
  \<^verbatim>\<open>vector_primitive.hpp\<close>. They are template parameters or live in files that are not
  among the sources, so they are parameters of the model, with the interfaces of section 6
  of the specification. \<open>'r\<close> is the state of the generator, \<open>'a\<close> that of the adapter,
  \<open>'o\<close> an output buffer of the filter, \<open>'i\<close> the init buffer and \<open>'w\<close> the output of
  the sampler.
\<close>

record ('r, 'x, 'o, 'a, 'i, 'w) collaborators =
  filter_init :: "'r \<Rightarrow> ScheduleElement \<Rightarrow> 'x FilterState \<Rightarrow> 'o \<Rightarrow> 'i \<Rightarrow> 'r \<times> 'x FilterState \<times> 'o"
  filter_output0 :: "'x FilterState \<Rightarrow> 'o \<Rightarrow> 'o"
  filter_correct :: "'r \<Rightarrow> ScheduleElement \<Rightarrow> 'x FilterState \<Rightarrow> 'r \<times> 'x FilterState"
  filter_output :: "ScheduleElement \<Rightarrow> 'x FilterState \<Rightarrow> 'o \<Rightarrow> 'o"
  filter_step :: "'r \<Rightarrow> Schedule \<Rightarrow> ScheduleIterator \<Rightarrow> ScheduleIterator \<Rightarrow> 'x FilterState \<Rightarrow> 'o
                    \<Rightarrow> 'r \<times> ScheduleIterator \<times> 'x FilterState \<times> 'o"
  filter_propose :: "'r \<Rightarrow> ScheduleElement \<Rightarrow> 'x FilterState \<Rightarrow> 'x FilterState \<Rightarrow> 'o
                    \<Rightarrow> exception option \<times> 'r \<times> 'x FilterState \<times> 'o"
  filter_propose_adapted :: "'r \<Rightarrow> ScheduleElement \<Rightarrow> 'x FilterState \<Rightarrow> 'x FilterState \<Rightarrow> 'o \<Rightarrow> 'a
                    \<Rightarrow> exception option \<times> 'r \<times> 'x FilterState \<times> 'o"
  filter_filter :: "'r \<Rightarrow> Schedule \<Rightarrow> ScheduleIterator \<Rightarrow> ScheduleIterator \<Rightarrow> 'x FilterState \<Rightarrow> 'o
                    \<Rightarrow> exception option \<times> 'r \<times> 'x FilterState \<times> 'o"
  filter_samplePath :: "'r \<Rightarrow> 'x FilterState \<Rightarrow> 'o \<Rightarrow> 'r \<times> 'x FilterState \<times> 'o"
  adapter_clear :: "'a \<Rightarrow> 'a"
  adapter_add :: "('x, 'o) SIRState \<Rightarrow> 'a \<Rightarrow> 'a"
  adapter_ready :: "'a \<Rightarrow> bool"
  adapter_adapt :: "'a \<Rightarrow> 'a"
  resam_resample :: "'r \<Rightarrow> ScheduleElement \<Rightarrow> ('x, 'o) SIRState \<Rightarrow> bool \<times> 'r \<times> ('x, 'o) SIRState"
  rng_uniform :: "'r \<Rightarrow> double \<times> 'r"
  out_clear :: "'w \<Rightarrow> 'w"
  out_write :: "('x, 'o) SIRState \<Rightarrow> 'w \<Rightarrow> 'w"
  ess_reduce :: "double list \<Rightarrow> double \<times> double"

text \<open>
  The members of the sampler object that change: the adapter it refers to, \<^verbatim>\<open>nmoves\<close>,
  \<^verbatim>\<open>lastResample\<close>, \<^verbatim>\<open>lastAcceptRate\<close>, and the lines it has written on \<^verbatim>\<open>std::cerr\<close>.
\<close>

record 'a MarginalSIR =
  adapter :: 'a
  nmoves :: int
  lastResample :: bool
  lastAcceptRate :: double
  cerr :: "report_line list"

definition MarginalSIR_new :: "'a \<Rightarrow> int \<Rightarrow> 'a MarginalSIR" where
  "MarginalSIR_new ad n =
     \<lparr>adapter = ad, nmoves = n, lastResample = False, lastAcceptRate = Fin 0, cerr = []\<rparr>"


section \<open>MarginalSIR: rejuvenate\<close>

text \<open>
  The \<^verbatim>\<open>try\<close> block of a move with its two handlers: propose a replacement into the
  scratch pair, run the filter on it when its prior is finite, and turn either exception
  into a log-likelihood of minus infinity.
\<close>

definition propose_replacement ::
  "('r, 'x, 'o, 'a, 'i, 'w) collaborators \<Rightarrow> Schedule \<Rightarrow> ScheduleIterator \<Rightarrow> ScheduleIterator
     \<Rightarrow> bool \<Rightarrow> 'a \<Rightarrow> 'r \<Rightarrow> 'x FilterState \<Rightarrow> 'x FilterState \<Rightarrow> 'o
     \<Rightarrow> 'r \<times> 'x FilterState \<times> 'o" where
  "propose_replacement E sched first lst ready ad rng s1 s2' out2' =
     (let (e, rng, s2', out2') =
            (if ready then filter_propose_adapted E rng (sched ! first) s1 s2' out2' ad
             else filter_propose E rng (sched ! first) s1 s2' out2');
          (e, rng, s2', out2') =
            (case e of
               Some ex \<Rightarrow> (Some ex, rng, s2', out2')
             | None \<Rightarrow>
                 if is_finite (logPrior s2') then filter_filter E rng sched first lst s2' out2'
                 else (None, rng, s2', out2'))
      in case e of
           Some CholeskyException \<Rightarrow> (rng, s2'\<lparr>FilterState.logLikelihood := NInf\<rparr>, out2')
         | Some ParticleFilterDegeneratedException \<Rightarrow>
             (rng, s2'\<lparr>FilterState.logLikelihood := NInf\<rparr>, out2')
         | None \<Rightarrow> (rng, s2', out2'))"

text \<open>The decision of a move, \<^verbatim>\<open>/* accept or reject */\<close>.\<close>

definition accept_or_reject ::
  "('r, 'x, 'o, 'a, 'i, 'w) collaborators \<Rightarrow> 'r \<Rightarrow> 'x FilterState \<Rightarrow> 'x FilterState \<Rightarrow> bool \<times> 'r" where
  "accept_or_reject E rng s1 s2' =
     (if \<not> is_finite (FilterState.logLikelihood s2') then (False, rng)
      else if \<not> is_finite (FilterState.logLikelihood s1) then (True, rng)
      else
        let loglr = dsub (FilterState.logLikelihood s2') (FilterState.logLikelihood s1);
            logpr = dsub (logPrior s2') (logPrior s1);
            logqr = dsub (logProposal s1) (logProposal s2');
            logqr = (if \<not> is_finite (logProposal s1) \<and> \<not> is_finite (logProposal s2')
                     then Fin 0 else logqr);
            logratio = dadd (dadd loglr logpr) logqr;
            (u, rng) = rng_uniform E rng
        in (dless (dlog u) logratio, rng))"

text \<open>
  One move of one particle. The state of a move is the generator, the particle's pair
  \<^verbatim>\<open>s1\<close>, \<^verbatim>\<open>out1\<close>, the scratch pair \<^verbatim>\<open>s2\<close>, \<^verbatim>\<open>out2\<close> (written \<open>s2'\<close>, \<open>out2'\<close>
  where the names of the members of the population are taken) and the counter
  \<^verbatim>\<open>naccept\<close>. On acceptance \<^verbatim>\<open>s1.swap(s2)\<close> and \<^verbatim>\<open>out1.swap(out2)\<close> exchange the two pairs.
\<close>

definition rejuvenate_move ::
  "('r, 'x, 'o, 'a, 'i, 'w) collaborators \<Rightarrow> Schedule \<Rightarrow> ScheduleIterator \<Rightarrow> ScheduleIterator
     \<Rightarrow> bool \<Rightarrow> 'a \<Rightarrow> 'r \<times> 'x FilterState \<times> 'o \<times> 'x FilterState \<times> 'o \<times> int
     \<Rightarrow> 'r \<times> 'x FilterState \<times> 'o \<times> 'x FilterState \<times> 'o \<times> int" where
  "rejuvenate_move E sched first lst ready ad m =
     (case m of (rng, s1, out1, s2', out2', naccept) \<Rightarrow>
        let (rng, s2', out2') = propose_replacement E sched first lst ready ad rng s1 s2' out2';
            (accept, rng) = accept_or_reject E rng s1 s2'
        in if accept then (rng, s2', out2', s1, out1, naccept + 1)
           else (rng, s1, out1, s2', out2', naccept))"

text \<open>The body of the loop over the particles: \<^verbatim>\<open>nmoves\<close> moves of particle \<open>p\<close>.\<close>

definition rejuvenate_particle ::
  "('r, 'x, 'o, 'a, 'i, 'w) collaborators \<Rightarrow> Schedule \<Rightarrow> ScheduleIterator \<Rightarrow> ScheduleIterator
     \<Rightarrow> bool \<Rightarrow> 'a \<Rightarrow> int \<Rightarrow> nat \<Rightarrow> 'r \<times> ('x, 'o) SIRState \<times> int
     \<Rightarrow> 'r \<times> ('x, 'o) SIRState \<times> int" where
  "rejuvenate_particle E sched first lst ready ad n p st =
     (case st of (rng, s, naccept) \<Rightarrow>
        (case (rejuvenate_move E sched first lst ready ad ^^ nat n)
                (rng, s1s s ! p, out1s s ! p, s2 s, out2 s, naccept) of
           (rng, s1, out1, s2', out2', naccept) \<Rightarrow>
             (rng,
              s\<lparr>s1s := (s1s s)[p := s1], out1s := (out1s s)[p := out1], s2 := s2', out2 := out2'\<rparr>,
              naccept)))"

definition rejuvenate ::
  "('r, 'x, 'o, 'a, 'i, 'w) collaborators \<Rightarrow> Schedule \<Rightarrow> ScheduleIterator \<Rightarrow> ScheduleIterator
     \<Rightarrow> 'a MarginalSIR \<times> 'r \<times> ('x, 'o) SIRState \<Rightarrow> 'a MarginalSIR \<times> 'r \<times> ('x, 'o) SIRState" where
  "rejuvenate E sched first lst st =
     (case st of (sir, rng, s) \<Rightarrow>
        if lastResample sir then
          let ready = adapter_ready E (adapter sir);
              (rng, s, naccept) =
                fold (rejuvenate_particle E sched first lst ready (adapter sir) (nmoves sir))
                  [0..<size_of s] (rng, s, 0);
              ntotal = nmoves sir * int (size_of s)
          in (sir\<lparr>lastAcceptRate := ddiv (double_of_int naccept) (double_of_int ntotal)\<rparr>, rng, s)
        else (sir, rng, s))"

text \<open>
  The acceptance ratio in the words of the specification: the likelihood term plus the
  prior term plus the proposal-density term, the last one being zero when both proposal
  densities are non-finite.
\<close>

definition spec_logratio :: "'x FilterState \<Rightarrow> 'x FilterState \<Rightarrow> double" where
  "spec_logratio current proposed =
     dadd (dadd (dsub (FilterState.logLikelihood proposed) (FilterState.logLikelihood current))
                (dsub (logPrior proposed) (logPrior current)))
          (if \<not> is_finite (logProposal current) \<and> \<not> is_finite (logProposal proposed)
           then Fin 0
           else dsub (logProposal current) (logProposal proposed))"


section \<open>MarginalSIR: init, step and term\<close>

text \<open>
  The body of the loop of \<^verbatim>\<open>init\<close> for particle \<open>p\<close>; \<open>now\<close> is \<^verbatim>\<open>*first\<close>. The loops
  over the particles are folds over the list of indices, so that the order of the
  iterations is explicit.
\<close>

definition init_particle ::
  "('r, 'x, 'o, 'a, 'i, 'w) collaborators \<Rightarrow> ScheduleElement \<Rightarrow> 'i \<Rightarrow> nat
     \<Rightarrow> 'r \<times> ('x, 'o) SIRState \<Rightarrow> 'r \<times> ('x, 'o) SIRState" where
  "init_particle E now inInit p st =
     (case st of (rng, s) \<Rightarrow>
        (case filter_init E rng now (s1s s ! p) (out1s s ! p) inInit of
           (rng, s1, out1) \<Rightarrow>
             let out1 = filter_output0 E s1 out1
             in (case filter_correct E rng now s1 of
                   (rng, s1) \<Rightarrow>
                     let out1 = filter_output E now s1 out1;
                         s = s\<lparr>s1s := (s1s s)[p := s1], out1s := (out1s s)[p := out1]\<rparr>;
                         s = s\<lparr>logWeights := (logWeights s)[p := FilterState.logLikelihood s1]\<rparr>;
                         s = s\<lparr>ancestors := (ancestors s)[p := int p]\<rparr>
                     in (rng, s))))"

definition init ::
  "('r, 'x, 'o, 'a, 'i, 'w) collaborators \<Rightarrow> Schedule \<Rightarrow> ScheduleIterator \<Rightarrow> 'i
     \<Rightarrow> 'a MarginalSIR \<times> 'r \<times> ('x, 'o) SIRState \<times> 'w
     \<Rightarrow> 'a MarginalSIR \<times> 'r \<times> ('x, 'o) SIRState \<times> 'w" where
  "init E sched first inInit st =
     (case st of (sir, rng, s, out) \<Rightarrow>
        (case fold (init_particle E (sched ! first) inInit) [0..<size_of s] (rng, s) of
           (rng, s) \<Rightarrow>
             let out = out_clear E out;
                 sir = sir\<lparr>lastResample := False\<rparr>;
                 sir = sir\<lparr>lastAcceptRate := Fin 0\<rparr>
             in (sir, rng, s, out)))"

definition adapt ::
  "('r, 'x, 'o, 'a, 'i, 'w) collaborators \<Rightarrow> ('x, 'o) SIRState \<Rightarrow> 'a MarginalSIR \<Rightarrow> 'a MarginalSIR" where
  "adapt E s sir =
     (let ad = adapter_clear E (adapter sir);
          ad = adapter_add E s ad;
          ad = (if adapter_ready E ad then adapter_adapt E ad else ad)
      in sir\<lparr>adapter := ad\<rparr>)"

definition resample ::
  "('r, 'x, 'o, 'a, 'i, 'w) collaborators \<Rightarrow> 'r \<Rightarrow> ScheduleElement \<Rightarrow> ('x, 'o) SIRState
     \<Rightarrow> 'a MarginalSIR \<Rightarrow> 'a MarginalSIR \<times> 'r \<times> ('x, 'o) SIRState" where
  "resample E rng now s sir =
     (case resam_resample E rng now s of
        (r, rng, s) \<Rightarrow> (sir\<lparr>lastResample := r\<rparr>, rng, s))"

text \<open>\<^verbatim>\<open>report\<close>, on the process of rank 0: one line on \<^verbatim>\<open>std::cerr\<close>.\<close>

definition report :: "ScheduleElement \<Rightarrow> ('x, 'o) SIRState \<Rightarrow> 'a MarginalSIR \<Rightarrow> 'a MarginalSIR" where
  "report now s sir =
     sir\<lparr>cerr := cerr sir @
        [\<lparr>line_index = indexOutput now, line_time = getTime now, line_ess = ess s,
          line_rate = (if lastResample sir then Some (lastAcceptRate sir) else None)\<rparr>]\<rparr>"

text \<open>
  The body of the inner loop of \<^verbatim>\<open>step\<close> for particle \<open>p\<close>. The local \<^verbatim>\<open>iter1\<close> is
  declared without a value before the \<^verbatim>\<open>do\<close> loop, which is \<open>None\<close> here, and is set to
  \<^verbatim>\<open>iter\<close> before each particle's \<^verbatim>\<open>filter.step\<close>.
\<close>

definition advance_particle ::
  "('r, 'x, 'o, 'a, 'i, 'w) collaborators \<Rightarrow> Schedule \<Rightarrow> ScheduleIterator \<Rightarrow> ScheduleIterator \<Rightarrow> nat
     \<Rightarrow> 'r \<times> ('x, 'o) SIRState \<times> ScheduleIterator option
     \<Rightarrow> 'r \<times> ('x, 'o) SIRState \<times> ScheduleIterator option" where
  "advance_particle E sched iter lst p st =
     (case st of (rng, s, iter1) \<Rightarrow>
        let iter1 = iter
        in (case filter_step E rng sched iter1 lst (s1s s ! p) (out1s s ! p) of
              (rng, iter1, s1, out1) \<Rightarrow>
                let s = s\<lparr>s1s := (s1s s)[p := s1], out1s := (out1s s)[p := out1]\<rparr>;
                    s = s\<lparr>logWeights := (logWeights s)
                          [p := dadd (logWeights s ! p)
                                     (FilterState.logIncrements s1 ! indexObs (sched ! iter1))]\<rparr>
                in (rng, s, Some iter1)))"

text \<open>
  One pass of the \<^verbatim>\<open>do\<close> loop of \<^verbatim>\<open>step\<close>, in two parts. Its state is the sampler,
  the generator, the population, \<^verbatim>\<open>iter\<close> and \<^verbatim>\<open>iter1\<close>. The first part is
  \<^verbatim>\<open>adapt\<close>, \<^verbatim>\<open>resample\<close>, \<^verbatim>\<open>rejuvenate\<close> up to \<^verbatim>\<open>iter + 1\<close>, and \<^verbatim>\<open>report\<close>.
\<close>

definition step_pass_head ::
  "('r, 'x, 'o, 'a, 'i, 'w) collaborators \<Rightarrow> Schedule \<Rightarrow> ScheduleIterator
     \<Rightarrow> 'a MarginalSIR \<times> 'r \<times> ('x, 'o) SIRState \<times> ScheduleIterator \<times> ScheduleIterator option
     \<Rightarrow> 'a MarginalSIR \<times> 'r \<times> ('x, 'o) SIRState \<times> ScheduleIterator \<times> ScheduleIterator option" where
  "step_pass_head E sched first st =
     (case st of (sir, rng, s, iter, iter1) \<Rightarrow>
        let sir = adapt E s sir
        in (case resample E rng (sched ! iter) s sir of
              (sir, rng, s) \<Rightarrow>
                (case rejuvenate E sched first (iter + 1) (sir, rng, s) of
                   (sir, rng, s) \<Rightarrow>
                     let sir = report (sched ! iter) s sir
                     in (sir, rng, s, iter, iter1))))"

text \<open>
  The second part is the loop over the particles and \<^verbatim>\<open>iter = iter1\<close>. Assigning an
  \<^verbatim>\<open>iter1\<close> that never received a value (an empty population) is undefined behaviour.
\<close>

definition step_pass ::
  "('r, 'x, 'o, 'a, 'i, 'w) collaborators \<Rightarrow> Schedule \<Rightarrow> ScheduleIterator \<Rightarrow> ScheduleIterator
     \<Rightarrow> 'a MarginalSIR \<times> 'r \<times> ('x, 'o) SIRState \<times> ScheduleIterator \<times> ScheduleIterator option
     \<Rightarrow> fault + 'a MarginalSIR \<times> 'r \<times> ('x, 'o) SIRState \<times> ScheduleIterator \<times> ScheduleIterator option" where
  "step_pass E sched first lst st =
     (case step_pass_head E sched first st of
        (sir, rng, s, iter, iter1) \<Rightarrow>
          (case fold (advance_particle E sched iter lst) [0..<size_of s] (rng, s, iter1) of
             (rng, s, None) \<Rightarrow> Inl UndefinedBehaviour
           | (rng, s, Some i) \<Rightarrow> Inr (sir, rng, s, i, Some i)))"

text \<open>
  The \<^verbatim>\<open>do ... while (iter + 1 != last && !iter->isObserved())\<close> loop. Nothing in the
  sampler bounds the number of passes: that depends on how \<^verbatim>\<open>filter.step\<close> moves the
  iterator, so the loop is a partial function, and \<open>None\<close> stands for a loop that never ends.
\<close>

partial_function (option) step_loop ::
  "('r, 'x, 'o, 'a, 'i, 'w) collaborators \<Rightarrow> Schedule \<Rightarrow> ScheduleIterator \<Rightarrow> ScheduleIterator
     \<Rightarrow> 'a MarginalSIR \<times> 'r \<times> ('x, 'o) SIRState \<times> ScheduleIterator \<times> ScheduleIterator option
     \<Rightarrow> (fault + 'a MarginalSIR \<times> 'r \<times> ('x, 'o) SIRState \<times> ScheduleIterator \<times> ScheduleIterator option) option"
  where
  "step_loop E sched first lst st =
     (case step_pass E sched first lst st of
        Inl f \<Rightarrow> Some (Inl f)
      | Inr st' \<Rightarrow>
          (case st' of (sir, rng, s, iter, iter1) \<Rightarrow>
             if iter + 1 \<noteq> lst \<and> \<not> isObserved (sched ! iter)
             then step_loop E sched first lst st'
             else Some (Inr st')))"

text \<open>The statements of \<^verbatim>\<open>step\<close> after the loop.\<close>

definition step_exit ::
  "('r, 'x, 'o, 'a, 'i, 'w) collaborators \<Rightarrow> Schedule \<Rightarrow> ScheduleIterator \<Rightarrow> ('x, 'o) SIRState
     \<Rightarrow> ('x, 'o) SIRState" where
  "step_exit E sched iter s =
     (case ess_reduce E (logWeights s) of
        (e, lW) \<Rightarrow>
          let s = s\<lparr>ess := e\<rparr>;
              s = s\<lparr>logIncrements := (logIncrements s)
                    [indexObs (sched ! iter) := dsub lW (logLikelihood s)]\<rparr>;
              s = s\<lparr>logLikelihood := lW\<rparr>
          in s)"

definition step ::
  "('r, 'x, 'o, 'a, 'i, 'w) collaborators \<Rightarrow> Schedule \<Rightarrow> ScheduleIterator \<Rightarrow> ScheduleIterator
     \<Rightarrow> ScheduleIterator \<Rightarrow> 'a MarginalSIR \<times> 'r \<times> ('x, 'o) SIRState
     \<Rightarrow> (fault + 'a MarginalSIR \<times> 'r \<times> ('x, 'o) SIRState \<times> ScheduleIterator) option" where
  "step E sched first iter lst st =
     (case st of (sir, rng, s) \<Rightarrow>
        (case step_loop E sched first lst (sir, rng, s, iter, None) of
           None \<Rightarrow> None
         | Some (Inl f) \<Rightarrow> Some (Inl f)
         | Some (Inr (sir, rng, s, iter, iter1)) \<Rightarrow>
             Some (Inr (sir, rng, step_exit E sched iter s, iter))))"

text \<open>
  Modelled from the spec: \<^verbatim>\<open>logsumexp_reduce\<close> of \<^verbatim>\<open>vector_primitive.hpp\<close>, which is
  not among the sources: the logarithm of the sum of the exponentials of the elements.
\<close>

definition logsumexp_reduce :: "double list \<Rightarrow> double" where
  "logsumexp_reduce ws = dlog (foldr dadd (map dexp ws) (Fin 0))"

definition samplePath_particle ::
  "('r, 'x, 'o, 'a, 'i, 'w) collaborators \<Rightarrow> nat \<Rightarrow> 'r \<times> ('x, 'o) SIRState \<Rightarrow> 'r \<times> ('x, 'o) SIRState" where
  "samplePath_particle E p st =
     (case st of (rng, s) \<Rightarrow>
        (case filter_samplePath E rng (s1s s ! p) (out1s s ! p) of
           (rng, s1, out1) \<Rightarrow>
             (rng, s\<lparr>s1s := (s1s s)[p := s1], out1s := (out1s s)[p := out1]\<rparr>)))"

text \<open>\<^verbatim>\<open>term\<close>, under a name that is not a keyword.\<close>

definition term_sir ::
  "('r, 'x, 'o, 'a, 'i, 'w) collaborators \<Rightarrow> 'r \<times> ('x, 'o) SIRState \<Rightarrow> 'r \<times> ('x, 'o) SIRState" where
  "term_sir E st =
     (case st of (rng, s) \<Rightarrow>
        let s = s\<lparr>logLikelihood :=
                  dadd (logLikelihood s)
                       (dsub (logsumexp_reduce (logWeights s))
                             (dlog (double_of_int (int (size_of s)))))\<rparr>
        in fold (samplePath_particle E) [0..<size_of s] (rng, s))"

definition outputT ::
  "('r, 'x, 'o, 'a, 'i, 'w) collaborators \<Rightarrow> ('x, 'o) SIRState \<Rightarrow> 'w \<Rightarrow> 'w" where
  "outputT E s out = out_write E s out"


section \<open>Notions used in the statements\<close>

text \<open>A rate: a finite value between 0 and 1.\<close>

definition is_rate :: "double \<Rightarrow> bool" where
  "is_rate d = (case d of Fin x \<Rightarrow> 0 \<le> x \<and> x \<le> 1 | _ \<Rightarrow> False)"

text \<open>The counter \<^verbatim>\<open>naccept\<close> in the state of a move.\<close>

definition naccept_of :: "'r \<times> 'x FilterState \<times> 'o \<times> 'x FilterState \<times> 'o \<times> int \<Rightarrow> int" where
  "naccept_of m = snd (snd (snd (snd (snd m))))"

text \<open>
  What \<^verbatim>\<open>rejuvenate\<close> leaves alone in a population: the vectors \<^verbatim>\<open>logWeights\<close> and
  \<^verbatim>\<open>ancestors\<close>, the scalars, the increments, and the number of particles.
\<close>

definition frame_eq :: "('x, 'o) SIRState \<Rightarrow> ('x, 'o) SIRState \<Rightarrow> bool" where
  "frame_eq s s' = (logWeights s' = logWeights s \<and> ancestors s' = ancestors s \<and> ess s' = ess s
      \<and> logLikelihood s' = logLikelihood s \<and> logIncrements s' = logIncrements s
      \<and> length (s1s s') = length (s1s s) \<and> length (out1s s') = length (out1s s))"


text \<open>
  The state of a particle after \<^verbatim>\<open>init\<close>: the result of \<^verbatim>\<open>filter.correct\<close> at the
  first schedule element on what \<^verbatim>\<open>filter.init\<close> made of the particle's state and output,
  at some states of the generator.
\<close>

definition corrected_at_t0 ::
  "('r, 'x, 'o, 'a, 'i, 'w) collaborators \<Rightarrow> ScheduleElement \<Rightarrow> 'i \<Rightarrow> 'x FilterState \<Rightarrow> 'o
     \<Rightarrow> 'x FilterState \<Rightarrow> bool" where
  "corrected_at_t0 E now inInit s1 out1 s1' =
     (\<exists>r r'. s1' = snd (filter_correct E r' now (fst (snd (filter_init E r now s1 out1 inInit)))))"

text \<open>
  The invariant of the loop of \<^verbatim>\<open>init\<close> before particle \<open>k\<close>: the particles below
  \<open>k\<close> are initialised, the others are as they were in \<open>s\<close>.
\<close>

definition init_inv ::
  "('r, 'x, 'o, 'a, 'i, 'w) collaborators \<Rightarrow> ScheduleElement \<Rightarrow> 'i \<Rightarrow> ('x, 'o) SIRState \<Rightarrow> nat
     \<Rightarrow> ('x, 'o) SIRState \<Rightarrow> bool" where
  "init_inv E now inInit s k s' =
     (size_of s' = size_of s \<and> size_invariant s'
      \<and> (\<forall>p<k. logWeights s' ! p = FilterState.logLikelihood (s1s s' ! p)
                 \<and> ancestors s' ! p = int p
                 \<and> corrected_at_t0 E now inInit (s1s s ! p) (out1s s ! p) (s1s s' ! p))
      \<and> (\<forall>p\<ge>k. s1s s' ! p = s1s s ! p \<and> out1s s' ! p = out1s s ! p))"


text \<open>
  The pair of a particle after \<^verbatim>\<open>term\<close>: the result of \<^verbatim>\<open>filter.samplePath\<close> on the
  particle's state and output, at some state of the generator.
\<close>

definition path_sampled ::
  "('r, 'x, 'o, 'a, 'i, 'w) collaborators \<Rightarrow> 'x FilterState \<Rightarrow> 'o \<Rightarrow> 'x FilterState \<Rightarrow> 'o \<Rightarrow> bool" where
  "path_sampled E s1 out1 s1' out1' =
     (\<exists>r. (s1', out1') = snd (filter_samplePath E r s1 out1))"

text \<open>The invariant of the loop of \<^verbatim>\<open>term\<close> before particle \<open>k\<close>.\<close>

definition samplePath_inv ::
  "('r, 'x, 'o, 'a, 'i, 'w) collaborators \<Rightarrow> ('x, 'o) SIRState \<Rightarrow> nat \<Rightarrow> ('x, 'o) SIRState \<Rightarrow> bool" where
  "samplePath_inv E s k s' =
     (size_of s' = size_of s \<and> length (out1s s') = length (out1s s)
      \<and> logWeights s' = logWeights s \<and> ancestors s' = ancestors s \<and> ess s' = ess s
      \<and> logLikelihood s' = logLikelihood s \<and> logIncrements s' = logIncrements s
      \<and> (\<forall>p<k. path_sampled E (s1s s ! p) (out1s s ! p) (s1s s' ! p) (out1s s' ! p))
      \<and> (\<forall>p\<ge>k. s1s s' ! p = s1s s ! p \<and> out1s s' ! p = out1s s ! p))"

text \<open>
  What the loop of \<^verbatim>\<open>step\<close> needs from \<^verbatim>\<open>filter.step\<close> to end: called before the
  last element of the schedule, it moves the iterator forward and stays before the end.
\<close>

definition filter_advances ::
  "('r, 'x, 'o, 'a, 'i, 'w) collaborators \<Rightarrow> Schedule \<Rightarrow> ScheduleIterator \<Rightarrow> bool" where
  "filter_advances E sched lst =
     (\<forall>rng iter s1 out1. iter + 1 < lst \<longrightarrow>
        iter < fst (snd (filter_step E rng sched iter lst s1 out1))
        \<and> fst (snd (filter_step E rng sched iter lst s1 out1)) < lst)"

text \<open>The resampler keeps the number of particles and the size invariant.\<close>

definition resampler_keeps_size :: "('r, 'x, 'o, 'a, 'i, 'w) collaborators \<Rightarrow> bool" where
  "resampler_keeps_size E =
     (\<forall>rng now s. size_invariant s \<longrightarrow>
        size_invariant (snd (snd (resam_resample E rng now s)))
        \<and> size_of (snd (snd (resam_resample E rng now s))) = size_of s)"

text \<open>
  A particle advanced by one pass of \<^verbatim>\<open>step\<close>: \<^verbatim>\<open>filter.step\<close> has run on its state
  and output from the position \<open>iter\<close> and has reached the position \<open>iter1\<close>, and the
  increment it left at the observation index of that position has been added to the
  particle's log-weight.
\<close>

definition advanced_from ::
  "('r, 'x, 'o, 'a, 'i, 'w) collaborators \<Rightarrow> Schedule \<Rightarrow> ScheduleIterator \<Rightarrow> ScheduleIterator
     \<Rightarrow> 'x FilterState \<Rightarrow> 'o \<Rightarrow> double \<Rightarrow> 'x FilterState \<Rightarrow> 'o \<Rightarrow> double
     \<Rightarrow> ScheduleIterator \<Rightarrow> bool" where
  "advanced_from E sched iter lst s1 out1 w s1' out1' w' iter1 =
     (\<exists>r. case filter_step E r sched iter lst s1 out1 of
             (r', reached, a, b) \<Rightarrow>
               s1' = a \<and> out1' = b \<and> iter1 = reached
               \<and> w' = dadd w (FilterState.logIncrements a ! indexObs (sched ! reached)))"

text \<open>
  The particles below \<open>k\<close> are advanced from the population \<open>s\<close>, all of them from the
  position \<open>iter\<close>, and the local \<^verbatim>\<open>iter1\<close> holds the position that \<^verbatim>\<open>filter.step\<close>
  reached for the last of them, particle \<open>k - 1\<close>.
\<close>

definition advance_slots ::
  "('r, 'x, 'o, 'a, 'i, 'w) collaborators \<Rightarrow> Schedule \<Rightarrow> ScheduleIterator \<Rightarrow> ScheduleIterator
     \<Rightarrow> ('x, 'o) SIRState \<Rightarrow> nat \<Rightarrow> ('x, 'o) SIRState \<Rightarrow> ScheduleIterator option \<Rightarrow> bool" where
  "advance_slots E sched iter lst s k s' i1 =
     (\<forall>p<k. \<exists>reached.
        advanced_from E sched iter lst (s1s s ! p) (out1s s ! p) (logWeights s ! p)
          (s1s s' ! p) (out1s s' ! p) (logWeights s' ! p) reached
        \<and> (Suc p = k \<longrightarrow> i1 = Some reached))"

text \<open>The invariant of the inner loop of \<^verbatim>\<open>step\<close> before particle \<open>k\<close>.\<close>

definition advance_inv ::
  "('r, 'x, 'o, 'a, 'i, 'w) collaborators \<Rightarrow> Schedule \<Rightarrow> ScheduleIterator \<Rightarrow> ScheduleIterator
     \<Rightarrow> ('x, 'o) SIRState \<Rightarrow> ScheduleIterator option \<Rightarrow> nat
     \<Rightarrow> ('x, 'o) SIRState \<Rightarrow> ScheduleIterator option \<Rightarrow> bool" where
  "advance_inv E sched iter lst s i0 k s' i1 =
     (size_of s' = size_of s \<and> size_invariant s'
      \<and> ancestors s' = ancestors s \<and> ess s' = ess s \<and> logLikelihood s' = logLikelihood s
      \<and> logIncrements s' = logIncrements s \<and> s2 s' = s2 s \<and> out2 s' = out2 s
      \<and> advance_slots E sched iter lst s k s' i1
      \<and> (\<forall>p\<ge>k. s1s s' ! p = s1s s ! p \<and> out1s s' ! p = out1s s ! p
                   \<and> logWeights s' ! p = logWeights s ! p)
      \<and> (k = 0 \<longrightarrow> i1 = i0))"

text \<open>The condition of the \<^verbatim>\<open>do ... while\<close> loop of \<^verbatim>\<open>step\<close>.\<close>

definition loop_continues ::
  "Schedule \<Rightarrow> ScheduleIterator
     \<Rightarrow> 'a MarginalSIR \<times> 'r \<times> ('x, 'o) SIRState \<times> ScheduleIterator \<times> ScheduleIterator option \<Rightarrow> bool" where
  "loop_continues sched lst st =
     (case st of (sir, rng, s, iter, iter1) \<Rightarrow> iter + 1 \<noteq> lst \<and> \<not> isObserved (sched ! iter))"

text \<open>The first \<open>n\<close> passes of the loop, stopping at a fault.\<close>

fun step_passes ::
  "('r, 'x, 'o, 'a, 'i, 'w) collaborators \<Rightarrow> Schedule \<Rightarrow> ScheduleIterator \<Rightarrow> ScheduleIterator \<Rightarrow> nat
     \<Rightarrow> 'a MarginalSIR \<times> 'r \<times> ('x, 'o) SIRState \<times> ScheduleIterator \<times> ScheduleIterator option
     \<Rightarrow> fault + 'a MarginalSIR \<times> 'r \<times> ('x, 'o) SIRState \<times> ScheduleIterator \<times> ScheduleIterator option" where
  "step_passes E sched first lst 0 st = Inr st"
| "step_passes E sched first lst (Suc n) st =
     (case step_pass E sched first lst st of
        Inl f \<Rightarrow> Inl f
      | Inr st' \<Rightarrow> step_passes E sched first lst n st')"

text \<open>
  A state from which a pass can run: a non-empty population that satisfies the size
  invariant, and an iterator with one more element after it.
\<close>

definition pass_ready ::
  "ScheduleIterator
     \<Rightarrow> 'a MarginalSIR \<times> 'r \<times> ('x, 'o) SIRState \<times> ScheduleIterator \<times> ScheduleIterator option \<Rightarrow> bool" where
  "pass_ready lst st =
     (case st of (sir, rng, s, iter, iter1) \<Rightarrow>
        size_invariant s \<and> 0 < size_of s \<and> iter + 1 < lst)"

text \<open>
  The second part of a pass, from the state \<open>h\<close> after \<^verbatim>\<open>report\<close> to the state at the
  end of the pass: every particle is advanced from the same position \<^verbatim>\<open>iter\<close>, and the
  new \<^verbatim>\<open>iter\<close> is the position that \<^verbatim>\<open>filter.step\<close> reached for the last particle.
\<close>

definition pass_advanced ::
  "('r, 'x, 'o, 'a, 'i, 'w) collaborators \<Rightarrow> Schedule \<Rightarrow> ScheduleIterator
     \<Rightarrow> 'a MarginalSIR \<times> 'r \<times> ('x, 'o) SIRState \<times> ScheduleIterator \<times> ScheduleIterator option
     \<Rightarrow> 'a MarginalSIR \<times> 'r \<times> ('x, 'o) SIRState \<times> ScheduleIterator \<times> ScheduleIterator option \<Rightarrow> bool" where
  "pass_advanced E sched lst h st' =
     (case h of (sirh, rngh, sh, iterh, i1h) \<Rightarrow>
        (case st' of (sir', rng', s', iter', i1') \<Rightarrow>
           sir' = sirh \<and> size_of s' = size_of sh \<and> i1' = Some iter'
           \<and> advance_slots E sched iterh lst sh (size_of sh) s' (Some iter')))"

text \<open>
  What one iteration of the loop of \<^verbatim>\<open>init\<close> computes from the generator and the
  particle's own pair, and where it writes it: the particle's slots of \<^verbatim>\<open>s1s\<close>,
  \<^verbatim>\<open>out1s\<close>, \<^verbatim>\<open>logWeights\<close> and \<^verbatim>\<open>ancestors\<close>.
\<close>

definition init_slot ::
  "('r, 'x, 'o, 'a, 'i, 'w) collaborators \<Rightarrow> ScheduleElement \<Rightarrow> 'i \<Rightarrow> 'r \<Rightarrow> 'x FilterState \<Rightarrow> 'o
     \<Rightarrow> 'r \<times> 'x FilterState \<times> 'o" where
  "init_slot E now inInit rng s1 out1 =
     (case filter_init E rng now s1 out1 inInit of
        (rng1, a, b) \<Rightarrow>
          (case filter_correct E rng1 now a of
             (rng2, c) \<Rightarrow> (rng2, c, filter_output E now c (filter_output0 E a b))))"

definition write_init_slot ::
  "nat \<Rightarrow> 'x FilterState \<Rightarrow> 'o \<Rightarrow> ('x, 'o) SIRState \<Rightarrow> ('x, 'o) SIRState" where
  "write_init_slot p s1 out1 s =
     s\<lparr>s1s := (s1s s)[p := s1], out1s := (out1s s)[p := out1],
       logWeights := (logWeights s)[p := FilterState.logLikelihood s1],
       ancestors := (ancestors s)[p := int p]\<rparr>"

text \<open>Where one iteration of the inner loop of \<^verbatim>\<open>step\<close> writes.\<close>

definition write_advance_slot ::
  "Schedule \<Rightarrow> nat \<Rightarrow> ScheduleIterator \<Rightarrow> 'x FilterState \<Rightarrow> 'o \<Rightarrow> ('x, 'o) SIRState
     \<Rightarrow> ('x, 'o) SIRState" where
  "write_advance_slot sched p iter1 s1 out1 s =
     s\<lparr>s1s := (s1s s)[p := s1], out1s := (out1s s)[p := out1],
       logWeights := (logWeights s)
         [p := dadd (logWeights s ! p) (FilterState.logIncrements s1 ! indexObs (sched ! iter1))]\<rparr>"

text \<open>Filter operations that return the generator as they received it.\<close>

definition generator_untouched :: "('r, 'x, 'o, 'a, 'i, 'w) collaborators \<Rightarrow> bool" where
  "generator_untouched E =
     ((\<forall>rng now s1 out1 inInit. fst (filter_init E rng now s1 out1 inInit) = rng)
      \<and> (\<forall>rng now s1. fst (filter_correct E rng now s1) = rng)
      \<and> (\<forall>rng sched iter lst s1 out1. fst (filter_step E rng sched iter lst s1 out1) = rng))"

text \<open>
  What one iteration of the inner loop of \<^verbatim>\<open>step\<close> does to the generator and the
  population, the local \<^verbatim>\<open>iter1\<close> left aside.
\<close>

definition advance_population ::
  "('r, 'x, 'o, 'a, 'i, 'w) collaborators \<Rightarrow> Schedule \<Rightarrow> ScheduleIterator \<Rightarrow> ScheduleIterator \<Rightarrow> nat
     \<Rightarrow> 'r \<times> ('x, 'o) SIRState \<Rightarrow> 'r \<times> ('x, 'o) SIRState" where
  "advance_population E sched iter lst p st =
     (case st of (rng, s) \<Rightarrow>
        (case filter_step E rng sched iter lst (s1s s ! p) (out1s s ! p) of
           (rng', iter1, s1', out1') \<Rightarrow> (rng', write_advance_slot sched p iter1 s1' out1' s)))"

text \<open>The generator and the population in the state of the inner loop of \<^verbatim>\<open>step\<close>.\<close>

definition population_of ::
  "'r \<times> ('x, 'o) SIRState \<times> ScheduleIterator option \<Rightarrow> 'r \<times> ('x, 'o) SIRState" where
  "population_of st = (fst st, fst (snd st))"

section \<open>Example inputs\<close>

text \<open>
  A small instance of the collaborators, over a generator that is a counter: the filter
  initialises the log-likelihood of a particle from the generator, proposes a state of
  prior minus infinity without changing anything else, and steps the schedule by one.
\<close>

definition example_collaborators :: "(nat, unit, unit, unit, unit, unit) collaborators" where
  "example_collaborators =
     \<lparr>filter_init = (\<lambda>rng now s1 out1 inInit.
        (rng + 1, s1\<lparr>FilterState.logLikelihood := Fin (real rng)\<rparr>, out1)),
      filter_output0 = (\<lambda>s1 out1. out1),
      filter_correct = (\<lambda>rng now s1. (rng, s1)),
      filter_output = (\<lambda>now s1 out1. out1),
      filter_step = (\<lambda>rng sched iter lst s1 out1. (rng, iter + 1, s1, out1)),
      filter_propose = (\<lambda>rng now s1 s2' out2'. (None, rng, s2'\<lparr>logPrior := NInf\<rparr>, out2')),
      filter_propose_adapted = (\<lambda>rng now s1 s2' out2' ad. (None, rng, s2'\<lparr>logPrior := NInf\<rparr>, out2')),
      filter_filter = (\<lambda>rng sched first lst s2' out2'. (None, rng, s2', out2')),
      filter_samplePath = (\<lambda>rng s1 out1. (rng, s1, out1)),
      adapter_clear = (\<lambda>ad. ad),
      adapter_add = (\<lambda>s ad. ad),
      adapter_ready = (\<lambda>ad. False),
      adapter_adapt = (\<lambda>ad. ad),
      resam_resample = (\<lambda>rng now s. (True, rng, s)),
      rng_uniform = (\<lambda>rng. (Fin (1 / 2), rng + 1)),
      out_clear = (\<lambda>out. out),
      out_write = (\<lambda>s out. out),
      ess_reduce = (\<lambda>ws. (Fin (real (length ws)), Fin 0))\<rparr>"

definition example_particle :: "double \<Rightarrow> unit FilterState" where
  "example_particle ll =
     \<lparr>FilterState.logLikelihood = ll, logPrior = Fin 0, logProposal = Fin 0,
      FilterState.logIncrements = [Fin 0, Fin 0], payload = ()\<rparr>"

definition example_population :: "(unit, unit) SIRState" where
  "example_population =
     \<lparr>s1s = [example_particle (Fin 0), example_particle (Fin 0)], out1s = [(), ()],
      s2 = example_particle (Fin 0), out2 = (),
      logWeights = [Fin 0, Fin 0], ancestors = [0, 0], ess = Fin 2,
      logLikelihood = Fin 0, logIncrements = [Fin 0, Fin 0]\<rparr>"

definition example_sampler :: "int \<Rightarrow> bool \<Rightarrow> unit MarginalSIR" where
  "example_sampler n r =
     \<lparr>adapter = (), nmoves = n, lastResample = r, lastAcceptRate = Fin 0, cerr = []\<rparr>"

definition example_schedule :: Schedule where
  "example_schedule =
     [\<lparr>getTime = 0, indexOutput = 0, indexObs = 0, isObserved = False\<rparr>,
      \<lparr>getTime = 1, indexOutput = 1, indexObs = 0, isObserved = False\<rparr>,
      \<lparr>getTime = 2, indexOutput = 2, indexObs = 1, isObserved = True\<rparr>,
      \<lparr>getTime = 3, indexOutput = 3, indexObs = 1, isObserved = False\<rparr>]"

text \<open>
  A population of one particle whose log-likelihood is minus infinity, with a scratch
  state that holds a finite log-likelihood.
\<close>

definition example_degenerate_population :: "(unit, unit) SIRState" where
  "example_degenerate_population =
     \<lparr>s1s = [example_particle NInf], out1s = [()],
      s2 = example_particle (Fin 0), out2 = (),
      logWeights = [Fin 0], ancestors = [0], ess = Fin 1,
      logLikelihood = Fin 0, logIncrements = [Fin 0, Fin 0]\<rparr>"

text \<open>The population of the concrete case of the specification for \<^verbatim>\<open>term\<close>.\<close>

definition example_population4 :: "(unit, unit) SIRState" where
  "example_population4 =
     \<lparr>s1s = [example_particle (Fin 0), example_particle (Fin 0), example_particle (Fin 0),
             example_particle (Fin 0)],
      out1s = [(), (), (), ()],
      s2 = example_particle (Fin 0), out2 = (),
      logWeights = [Fin 2, Fin 2, Fin 2, Fin 2], ancestors = [0, 1, 2, 3], ess = Fin 4,
      logLikelihood = Fin 10, logIncrements = [Fin 0, Fin 0]\<rparr>"

text \<open>A filter as in the example above, except that \<^verbatim>\<open>init\<close> does not use the generator.\<close>

definition example_deterministic :: "(nat, unit, unit, unit, unit, unit) collaborators" where
  "example_deterministic =
     example_collaborators
       \<lparr>filter_init := (\<lambda>rng now s1 out1 inInit.
          (rng, s1\<lparr>FilterState.logLikelihood := Fin 1\<rparr>, out1))\<rparr>"


section \<open>Properties of TreeNetworkNode\<close>

lemma set_set_insert: "set (set_insert x xs) = insert x (set xs)"
  by (auto simp: set_insert_def set_insort_key)

lemma sorted_set_insert: "sorted xs \<Longrightarrow> sorted (set_insert x xs)"
  by (simp add: set_insert_def sorted_insort)

lemma distinct_set_insert: "distinct xs \<Longrightarrow> distinct (set_insert x xs)"
  by (simp add: set_insert_def distinct_insort)

lemma set_set_insert_range: "set (set_insert_range ys xs) = set ys \<union> set xs"
  unfolding set_insert_range_def
  by (induction ys arbitrary: xs) (auto simp: set_set_insert)

lemma distinct_set_insert_range: "distinct xs \<Longrightarrow> distinct (set_insert_range ys xs)"
  unfolding set_insert_range_def
  by (induction ys arbitrary: xs) (auto simp: distinct_set_insert)

lemma range_elements_whole:
  "range_elements w xs (begin_iterator w xs) (end_iterator w xs) = Inr xs"
  by (simp add: range_elements_def begin_iterator_def end_iterator_def)

lemma run_calls_comms: "comms (run_calls cs node) = comms node"
  unfolding run_calls_def
proof (induction cs arbitrary: node)
  case Nil
  show ?case by simp
next
  case (Cons c cs)
  show ?case by (cases c) (simp_all add: Cons.IH addChild_def removeChild_def Let_def)
qed

lemma run_calls_newcomms:
  "set (newcomms (run_calls cs node)) = set (newcomms node) \<union> added_links cs"
  unfolding run_calls_def
proof (induction cs arbitrary: node)
  case Nil
  show ?case by simp
next
  case (Cons c cs)
  show ?case
    by (cases c) (auto simp: Cons.IH addChild_def removeChild_def Let_def set_set_insert)
qed

lemma run_calls_oldcomms:
  "set (oldcomms (run_calls cs node)) = set (oldcomms node) \<union> removed_links cs"
  unfolding run_calls_def
proof (induction cs arbitrary: node)
  case Nil
  show ?case by simp
next
  case (Cons c cs)
  show ?case
    by (cases c) (auto simp: Cons.IH addChild_def removeChild_def Let_def set_set_insert)
qed

text \<open>
  When nothing is pending for removal, \<^verbatim>\<open>updateChildren\<close> merges the pending additions
  into the active set, empties both pending sets and returns the size of the active set.
\<close>

lemma updateChildren_no_removal:
  assumes "oldcomms node = []"
  shows "\<exists>n node'. updateChildren node = Inr (n, node')
           \<and> set (comms node') = set (comms node) \<union> set (newcomms node)
           \<and> newcomms node' = [] \<and> oldcomms node' = []
           \<and> n = int (length (comms node'))"
proof -
  have e: "set_erase_range Comms xs (begin_iterator Oldcomms (oldcomms node))
             (end_iterator Oldcomms (oldcomms node)) = Inr xs" for xs :: "'a list"
    using assms by (simp add: set_erase_range_def begin_iterator_def end_iterator_def)
  show ?thesis
    by (simp add: updateChildren_def range_elements_whole e set_set_insert_range Let_def
        Un_commute)
qed

text \<open>
  With a link pending for removal, the range erase is given a non-empty range of another
  container, whatever the active set holds.
\<close>

lemma updateChildren_pending_removal:
  assumes "oldcomms node \<noteq> []"
  shows "updateChildren node = Inl UndefinedBehaviour"
proof -
  have e: "set_erase_range Comms xs (begin_iterator Oldcomms (oldcomms node))
             (end_iterator Oldcomms (oldcomms node)) = Inl UndefinedBehaviour" for xs :: "'a list"
    using assms by (simp add: set_erase_range_def begin_iterator_def end_iterator_def)
  show ?thesis
    by (simp add: updateChildren_def range_elements_whole e Let_def)
qed

text \<open>
  So a commit after calls of \<^verbatim>\<open>addChild\<close> alone, on a new node, makes the active set
  the set of the links added, in whatever order they were added.
\<close>

lemma updateChildren_after_additions:
  assumes "removed_links cs = {}"
  shows "\<exists>n node'. updateChildren (run_calls cs (TreeNetworkNode_new null)) = Inr (n, node')
           \<and> set (comms node') = added_links cs
           \<and> newcomms node' = [] \<and> oldcomms node' = []
           \<and> n = int (length (comms node'))"
proof -
  let ?node = "run_calls cs (TreeNetworkNode_new null)"
  have "set (oldcomms ?node) = {}"
    using assms by (simp add: run_calls_oldcomms TreeNetworkNode_new_def)
  then have old: "oldcomms ?node = []" by simp
  have c: "set (comms ?node) \<union> set (newcomms ?node) = added_links cs"
    by (simp add: run_calls_comms run_calls_newcomms TreeNetworkNode_new_def)
  from updateChildren_no_removal [OF old] c show ?thesis by auto
qed

text \<open>
  C8. \<^verbatim>\<open>addChild(link)\<close> inserts the link into the pending-add set \<^verbatim>\<open>newcomms\<close>, leaves
  the other members alone, and returns the number of members counted before the insert:
  the size of the active set \<^verbatim>\<open>comms\<close> plus the size of \<^verbatim>\<open>newcomms\<close> at the moment of the
  call.
\<close>

theorem addChild_returns_size_before_insert:
  "fst (addChild link node) = int (length (comms node)) + int (length (newcomms node))
   \<and> set (newcomms (snd (addChild link node))) = insert link (set (newcomms node))
   \<and> comms (snd (addChild link node)) = comms node
   \<and> oldcomms (snd (addChild link node)) = oldcomms node
   \<and> parent (snd (addChild link node)) = parent node"
  by (simp add: addChild_def Let_def set_set_insert)

text \<open>
  C2. After any sequence of \<^verbatim>\<open>addChild\<close> and \<^verbatim>\<open>removeChild\<close> calls, a commit
  (\<^verbatim>\<open>updateChildren\<close>) should leave both pending sets empty and the active set equal to
  the links added minus the links removed. The code does not get there as soon as one
  link is pending for removal: \<^verbatim>\<open>comms.erase(oldcomms.begin(), oldcomms.end())\<close> hands
  iterators of \<^verbatim>\<open>oldcomms\<close> to the range erase of \<^verbatim>\<open>comms\<close>. On a new node, after
  \<^verbatim>\<open>addChild(1)\<close> and \<^verbatim>\<open>removeChild(1)\<close>, the commit is undefined behaviour instead of
  returning 0 with an empty active set.
\<close>

theorem updateChildren_erases_foreign_range:
  "updateChildren (run_calls [AddChild 1, RemoveChild 1] (TreeNetworkNode_new (0::int)))
     = Inl UndefinedBehaviour"
  by (simp add: updateChildren_def run_calls_def addChild_def removeChild_def
      TreeNetworkNode_new_def set_insert_def range_elements_def set_erase_range_def
      begin_iterator_def end_iterator_def set_insert_range_def Let_def)


section \<open>Properties of rejuvenate\<close>

text \<open>
  C1. In every move of \<^verbatim>\<open>rejuvenate\<close>, with \<open>proposed\<close> the scratch state after the
  proposal: a non-finite proposed log-likelihood rejects; otherwise a non-finite current
  log-likelihood accepts; otherwise \<open>u\<close> is drawn from the generator and the move is accepted
  exactly when \<open>log u\<close> is below the ratio of the specification,
  \<open>(proposedLL - currentLL) + (proposedPrior - currentPrior) + (currentProposalDensity -
  proposedProposalDensity)\<close>, whose last term is zero exactly when both log-proposal-densities
  are non-finite. Accepting exchanges the particle's pair with the scratch pair and counts
  one more acceptance; rejecting leaves both where they are.
\<close>

theorem rejuvenate_move_acceptance:
  "rejuvenate_move E sched first lst ready ad (rng, s1, out1, s2', out2', naccept) =
     (case propose_replacement E sched first lst ready ad rng s1 s2' out2' of
        (rng1, proposed, out_proposed) \<Rightarrow>
          if \<not> is_finite (FilterState.logLikelihood proposed)
          then (rng1, s1, out1, proposed, out_proposed, naccept)
          else if \<not> is_finite (FilterState.logLikelihood s1)
          then (rng1, proposed, out_proposed, s1, out1, naccept + 1)
          else (case rng_uniform E rng1 of
                  (u, rng2) \<Rightarrow>
                    if dless (dlog u) (spec_logratio s1 proposed)
                    then (rng2, proposed, out_proposed, s1, out1, naccept + 1)
                    else (rng2, s1, out1, proposed, out_proposed, naccept)))"
  by (simp add: rejuvenate_move_def accept_or_reject_def spec_logratio_def Let_def
      split: prod.splits)

lemma rejuvenate_particle_frame:
  "frame_eq s (fst (snd (rejuvenate_particle E sched first lst ready ad n p (rng, s, k))))"
  by (simp add: rejuvenate_particle_def frame_eq_def split: prod.splits)

lemma rejuvenate_particles_frame:
  "frame_eq s (fst (snd (fold (rejuvenate_particle E sched first lst ready ad n) ps (rng, s, k))))"
proof (induction ps arbitrary: rng s k)
  case Nil
  show ?case by (simp add: frame_eq_def)
next
  case (Cons p ps)
  obtain rng1 s1 k1 where r: "rejuvenate_particle E sched first lst ready ad n p (rng, s, k) = (rng1, s1, k1)"
    by (cases "rejuvenate_particle E sched first lst ready ad n p (rng, s, k)") auto
  have "frame_eq s s1"
    using rejuvenate_particle_frame [where s = s and E = E and sched = sched and first = first
        and lst = lst and ready = ready and ad = ad and n = n and p = p and rng = rng and k = k] r
    by simp
  moreover have "frame_eq s1 (fst (snd (fold (rejuvenate_particle E sched first lst ready ad n) ps (rng1, s1, k1))))"
    by (rule Cons.IH)
  ultimately show ?case using r by (simp add: frame_eq_def)
qed

text \<open>
  C10. \<^verbatim>\<open>rejuvenate\<close> never modifies the log-weights, the ancestors, \<^verbatim>\<open>ess\<close> or
  \<^verbatim>\<open>logLikelihood\<close> of the population: they are the same before and after the call.
\<close>

theorem rejuvenate_frame:
  "logWeights (snd (snd (rejuvenate E sched first lst (sir, rng, s)))) = logWeights s
   \<and> ancestors (snd (snd (rejuvenate E sched first lst (sir, rng, s)))) = ancestors s
   \<and> ess (snd (snd (rejuvenate E sched first lst (sir, rng, s)))) = ess s
   \<and> logLikelihood (snd (snd (rejuvenate E sched first lst (sir, rng, s)))) = logLikelihood s"
  using rejuvenate_particles_frame [where s = s and E = E and sched = sched and first = first
      and lst = lst and ready = "adapter_ready E (adapter sir)" and ad = "adapter sir"
      and n = "nmoves sir" and ps = "[0..<size_of s]" and rng = rng and k = 0]
  by (auto simp: rejuvenate_def frame_eq_def Let_def split: prod.splits)

lemma rejuvenate_move_naccept:
  "naccept_of m \<le> naccept_of (rejuvenate_move E sched first lst ready ad m)
   \<and> naccept_of (rejuvenate_move E sched first lst ready ad m) \<le> naccept_of m + 1"
  by (cases m) (simp add: rejuvenate_move_def naccept_of_def split: prod.splits)

lemma rejuvenate_moves_naccept:
  "naccept_of m \<le> naccept_of ((rejuvenate_move E sched first lst ready ad ^^ n) m)
   \<and> naccept_of ((rejuvenate_move E sched first lst ready ad ^^ n) m) \<le> naccept_of m + int n"
proof (induction n)
  case 0
  show ?case by simp
next
  case (Suc n)
  show ?case
    using Suc.IH
      rejuvenate_move_naccept [where m = "(rejuvenate_move E sched first lst ready ad ^^ n) m"
        and E = E and sched = sched and first = first and lst = lst and ready = ready and ad = ad]
    by simp
qed

lemma rejuvenate_particle_naccept:
  "k \<le> snd (snd (rejuvenate_particle E sched first lst ready ad n p (rng, s, k)))
   \<and> snd (snd (rejuvenate_particle E sched first lst ready ad n p (rng, s, k))) \<le> k + int (nat n)"
  using rejuvenate_moves_naccept [where m = "(rng, s1s s ! p, out1s s ! p, s2 s, out2 s, k)"
      and E = E and sched = sched and first = first and lst = lst and ready = ready and ad = ad
      and n = "nat n"]
  by (auto simp: rejuvenate_particle_def naccept_of_def split: prod.splits)

lemma rejuvenate_particles_naccept:
  "k \<le> snd (snd (fold (rejuvenate_particle E sched first lst ready ad n) ps (rng, s, k)))
   \<and> snd (snd (fold (rejuvenate_particle E sched first lst ready ad n) ps (rng, s, k)))
       \<le> k + int (length ps) * int (nat n)"
proof (induction ps arbitrary: rng s k)
  case Nil
  show ?case by simp
next
  case (Cons p ps)
  obtain rng1 s1 k1 where r: "rejuvenate_particle E sched first lst ready ad n p (rng, s, k) = (rng1, s1, k1)"
    by (cases "rejuvenate_particle E sched first lst ready ad n p (rng, s, k)") auto
  have k1: "k \<le> k1 \<and> k1 \<le> k + int (nat n)"
    using rejuvenate_particle_naccept [where k = k and E = E and sched = sched and first = first
        and lst = lst and ready = ready and ad = ad and n = n and p = p and rng = rng and s = s] r
    by simp
  have "k1 \<le> snd (snd (fold (rejuvenate_particle E sched first lst ready ad n) ps (rng1, s1, k1)))
     \<and> snd (snd (fold (rejuvenate_particle E sched first lst ready ad n) ps (rng1, s1, k1)))
       \<le> k1 + int (length ps) * int (nat n)"
    by (rule Cons.IH)
  with k1 show ?case using r by (simp add: algebra_simps)
qed

lemma is_rate_ratio:
  assumes "0 \<le> a" and "a \<le> b" and "0 < b"
  shows "is_rate (ddiv (double_of_int a) (double_of_int b))"
  using assms by (simp add: is_rate_def double_of_int_def)

lemma rejuvenate_rate:
  assumes "lastResample sir" and "0 < nmoves sir * int (size_of s)"
  shows "is_rate (lastAcceptRate (fst (rejuvenate E sched first lst (sir, rng, s))))"
proof -
  let ?f = "fold (rejuvenate_particle E sched first lst (adapter_ready E (adapter sir)) (adapter sir) (nmoves sir))
              [0..<size_of s] (rng, s, 0)"
  obtain rng1 s1 k1 where f: "?f = (rng1, s1, k1)" by (cases ?f) auto
  have pos: "0 < nmoves sir" using assms(2) by (simp add: zero_less_mult_iff)
  have b: "0 \<le> k1 \<and> k1 \<le> int (size_of s) * int (nat (nmoves sir))"
    using rejuvenate_particles_naccept [where k = 0 and E = E and sched = sched and first = first
        and lst = lst and ready = "adapter_ready E (adapter sir)" and ad = "adapter sir"
        and n = "nmoves sir" and ps = "[0..<size_of s]" and rng = rng and s = s] f
    by simp
  have sz: "size_of s1 = size_of s"
    using rejuvenate_particles_frame [where s = s and E = E and sched = sched and first = first
        and lst = lst and ready = "adapter_ready E (adapter sir)" and ad = "adapter sir"
        and n = "nmoves sir" and ps = "[0..<size_of s]" and rng = rng and k = 0] f
    by (simp add: frame_eq_def size_of_def)
  from b pos have "0 \<le> k1 \<and> k1 \<le> nmoves sir * int (size_of s)" by (simp add: mult.commute)
  then have "is_rate (ddiv (double_of_int k1) (double_of_int (nmoves sir * int (size_of s))))"
    using assms(2) is_rate_ratio by blast
  then show ?thesis using assms(1) f sz by (simp add: rejuvenate_def Let_def)
qed

lemma rejuvenate_no_resample:
  "\<not> lastResample sir \<Longrightarrow> rejuvenate E sched first lst (sir, rng, s) = (sir, rng, s)"
  by (simp add: rejuvenate_def)

text \<open>
  C3, as the code has it. \<^verbatim>\<open>lastAcceptRate\<close> is in [0,1] when the sampler is constructed
  and after \<^verbatim>\<open>init\<close>, and \<^verbatim>\<open>rejuvenate\<close> keeps it in [0,1] whenever no resample occurred
  or \<^verbatim>\<open>nmoves * size\<close> is positive; when no resample occurred \<^verbatim>\<open>rejuvenate\<close> changes
  nothing at all. (After a resample, \<^verbatim>\<open>rejuvenate\<close> always assigns \<^verbatim>\<open>lastAcceptRate\<close>;
  the theorem says nothing of the quotient when \<^verbatim>\<open>nmoves * size\<close> is not positive.)
\<close>

theorem lastAcceptRate_is_rate:
  "is_rate (lastAcceptRate (MarginalSIR_new ad n))
   \<and> is_rate (lastAcceptRate (fst (init E sched first inInit (sir, rng, s, out))))
   \<and> (is_rate (lastAcceptRate sir) \<and> (\<not> lastResample sir \<or> 0 < nmoves sir * int (size_of s))
        \<longrightarrow> is_rate (lastAcceptRate (fst (rejuvenate E sched first lst (sir, rng, s)))))
   \<and> (\<not> lastResample sir \<longrightarrow> rejuvenate E sched first lst (sir, rng, s) = (sir, rng, s))"
proof -
  have 1: "is_rate (lastAcceptRate (MarginalSIR_new ad n))"
    by (simp add: MarginalSIR_new_def is_rate_def)
  have 2: "is_rate (lastAcceptRate (fst (init E sched first inInit (sir, rng, s, out))))"
    by (simp add: init_def is_rate_def Let_def split: prod.splits)
  have 3: "is_rate (lastAcceptRate (fst (rejuvenate E sched first lst (sir, rng, s))))"
    if "is_rate (lastAcceptRate sir)" and "\<not> lastResample sir \<or> 0 < nmoves sir * int (size_of s)"
  proof (cases "lastResample sir")
    case True
    then have "0 < nmoves sir * int (size_of s)" using that(2) by simp
    with True show ?thesis by (rule rejuvenate_rate)
  next
    case False
    then show ?thesis using that(1) by (simp add: rejuvenate_no_resample)
  qed
  have 4: "\<not> lastResample sir \<longrightarrow> rejuvenate E sched first lst (sir, rng, s) = (sir, rng, s)"
    by (simp add: rejuvenate_no_resample)
  from 3 have 5: "is_rate (lastAcceptRate sir) \<and> (\<not> lastResample sir \<or> 0 < nmoves sir * int (size_of s))
        \<longrightarrow> is_rate (lastAcceptRate (fst (rejuvenate E sched first lst (sir, rng, s))))"
    by blast
  from 1 2 5 4 show ?thesis by (intro conjI)
qed

theorem lastAcceptRate_is_rate_witness:
  "is_rate (lastAcceptRate (example_sampler 1 True))
   \<and> lastResample (example_sampler 1 True)
   \<and> 0 < nmoves (example_sampler 1 True) * int (size_of example_population)
   \<and> is_rate (lastAcceptRate (fst (rejuvenate example_collaborators example_schedule 0 1
          (example_sampler 1 True, 0, example_population))))
   \<and> rejuvenate example_collaborators example_schedule 0 1
          (example_sampler 1 False, 0, example_population)
        = (example_sampler 1 False, 0, example_population)"
proof -
  have h1: "is_rate (lastAcceptRate (example_sampler 1 True))"
    by (simp add: example_sampler_def is_rate_def)
  have h2: "lastResample (example_sampler 1 True)"
    by (simp add: example_sampler_def)
  have h3: "0 < nmoves (example_sampler 1 True) * int (size_of example_population)"
    by (simp add: example_sampler_def example_population_def size_of_def)
  have h4: "\<not> lastResample (example_sampler 1 False)"
    by (simp add: example_sampler_def)
  have c1: "is_rate (lastAcceptRate (fst (rejuvenate example_collaborators example_schedule 0 1
          (example_sampler 1 True, 0, example_population))))"
    using lastAcceptRate_is_rate [where sir = "example_sampler 1 True" and s = example_population
      and E = example_collaborators and sched = example_schedule and first = 0 and lst = 1
      and rng = 0 and ad = "()" and n = 1 and inInit = "()" and out = "()"] h1 h3
    by simp
  have c2: "rejuvenate example_collaborators example_schedule 0 1
          (example_sampler 1 False, 0, example_population)
        = (example_sampler 1 False, 0, example_population)"
    using lastAcceptRate_is_rate [where sir = "example_sampler 1 False" and s = example_population
      and E = example_collaborators and sched = example_schedule and first = 0 and lst = 1
      and rng = 0 and ad = "()" and n = 1 and inInit = "()" and out = "()"] h4
    by simp
  from h1 h2 h3 c1 c2 show ?thesis by simp
qed

text \<open>
  C3 as the specification states it fails: after a resample with \<^verbatim>\<open>nmoves = 0\<close>, \<^verbatim>\<open>rejuvenate\<close>
  sets \<^verbatim>\<open>lastAcceptRate\<close> to \<^verbatim>\<open>double(0) / 0\<close>, which is not a number: neither in [0,1]
  nor the value it had.
\<close>

theorem rejuvenate_zero_moves_not_a_rate:
  "\<not> is_rate (lastAcceptRate (fst (rejuvenate example_collaborators example_schedule 0 1
          (example_sampler 0 True, 0, example_population))))
   \<and> lastAcceptRate (fst (rejuvenate example_collaborators example_schedule 0 1
          (example_sampler 0 True, 0, example_population)))
       \<noteq> lastAcceptRate (example_sampler 0 True)"
  by (simp add: rejuvenate_def rejuvenate_particle_def example_sampler_def example_population_def
      example_collaborators_def size_of_def is_rate_def double_of_int_def Let_def upt_rec)

lemma dless_minus_infinite_prior:
  assumes "is_finite a" and "is_finite b" and "\<not> is_finite d" and "d \<noteq> PInf"
  shows "\<not> dless x (dadd (dadd (dsub a b) (dsub d c)) q)"
proof -
  obtain ra rb where ab: "a = Fin ra" "b = Fin rb"
    using assms(1,2) by (cases a; cases b) auto
  have d: "d = NInf \<or> d = NaN" using assms(3,4) by (cases d) auto
  then have "dsub d c = NInf \<or> dsub d c = NaN"
    by (cases c) (auto simp: dsub_def)
  then have "dadd (dsub a b) (dsub d c) = NInf \<or> dadd (dsub a b) (dsub d c) = NaN"
    using ab by (auto simp: dsub_def)
  then have "dadd (dadd (dsub a b) (dsub d c)) q = NInf \<or> dadd (dadd (dsub a b) (dsub d c)) q = NaN"
    by (cases q) auto
  then show ?thesis by (cases x) auto
qed

text \<open>
  What the code does on a proposal that returns without an exception and with a non-finite
  log-prior. \<^verbatim>\<open>filter.filter\<close> is not invoked: the scratch state, its output and the
  generator leave the \<^verbatim>\<open>try\<close> block as \<^verbatim>\<open>propose\<close> left them, and the move is the
  same whatever function stands for \<^verbatim>\<open>filter.filter\<close>. The move is rejected (nothing
  swapped, \<^verbatim>\<open>naccept\<close> unchanged) when the log-likelihood that \<^verbatim>\<open>propose\<close> left in
  the scratch state is non-finite, and also when the particle's current log-likelihood is
  finite and the proposed log-prior is minus infinity or not a number, whatever the
  current log-prior.
\<close>

lemma nonfinite_prior_skips_filter:
  assumes p: "(if ready then filter_propose_adapted E rng (sched ! first) s1 s2' out2' ad
               else filter_propose E rng (sched ! first) s1 s2' out2')
              = (None, rng1, proposed, out_proposed)"
    and np: "\<not> is_finite (logPrior proposed)"
  shows "propose_replacement E sched first lst ready ad rng s1 s2' out2'
           = (rng1, proposed, out_proposed)
       \<and> rejuvenate_move (E\<lparr>filter_filter := ff\<rparr>) sched first lst ready ad
           (rng, s1, out1, s2', out2', naccept)
         = rejuvenate_move E sched first lst ready ad (rng, s1, out1, s2', out2', naccept)
       \<and> (\<not> is_finite (FilterState.logLikelihood proposed)
            \<or> (is_finite (FilterState.logLikelihood s1) \<and> logPrior proposed \<noteq> PInf)
           \<longrightarrow> (\<exists>rng2. rejuvenate_move E sched first lst ready ad
                          (rng, s1, out1, s2', out2', naccept)
                        = (rng2, s1, out1, proposed, out_proposed, naccept)))"
proof -
  have a: "propose_replacement E sched first lst ready ad rng s1 s2' out2'
           = (rng1, proposed, out_proposed)"
    using p np by (simp add: propose_replacement_def split: if_splits)
  have p': "(if ready then filter_propose_adapted (E\<lparr>filter_filter := ff\<rparr>) rng (sched ! first) s1 s2' out2' ad
               else filter_propose (E\<lparr>filter_filter := ff\<rparr>) rng (sched ! first) s1 s2' out2')
              = (None, rng1, proposed, out_proposed)"
    using p by (cases ready) simp_all
  have a': "propose_replacement (E\<lparr>filter_filter := ff\<rparr>) sched first lst ready ad rng s1 s2' out2'
           = (rng1, proposed, out_proposed)"
    using p' np by (simp add: propose_replacement_def split: if_splits)
  have b: "rejuvenate_move (E\<lparr>filter_filter := ff\<rparr>) sched first lst ready ad
           (rng, s1, out1, s2', out2', naccept)
         = rejuvenate_move E sched first lst ready ad (rng, s1, out1, s2', out2', naccept)"
    by (simp add: rejuvenate_move_def a a' accept_or_reject_def)
  have c: "\<exists>rng2. rejuvenate_move E sched first lst ready ad (rng, s1, out1, s2', out2', naccept)
                        = (rng2, s1, out1, proposed, out_proposed, naccept)"
    if h: "\<not> is_finite (FilterState.logLikelihood proposed)
            \<or> (is_finite (FilterState.logLikelihood s1) \<and> logPrior proposed \<noteq> PInf)"
  proof (cases "is_finite (FilterState.logLikelihood proposed)")
    case False
    then show ?thesis by (simp add: rejuvenate_move_def a accept_or_reject_def)
  next
    case True
    with h have fin: "is_finite (FilterState.logLikelihood s1)"
      "logPrior proposed \<noteq> PInf" by auto
    have "\<not> dless x (dadd (dadd (dsub (FilterState.logLikelihood proposed) (FilterState.logLikelihood s1))
                (dsub (logPrior proposed) (logPrior s1))) q)" for x q
      using dless_minus_infinite_prior [OF True fin(1) np fin(2)] .
    then show ?thesis
      using True fin(1)
      by (simp add: rejuvenate_move_def a accept_or_reject_def Let_def split: prod.splits)
  qed
  from a b c show ?thesis by blast
qed

text \<open>
  C4. A move whose proposal has a non-finite log-prior (and raises no exception) should
  skip \<^verbatim>\<open>filter.filter\<close> and be rejected: nothing swapped, \<^verbatim>\<open>naccept\<close> unchanged. The
  code skips the filter, and then decides on the log-likelihood it finds in the scratch
  state, which nothing has reset: the two exception handlers assign
  \<^verbatim>\<open>s2.logLikelihood = -BI_INF\<close>, the path that skips the filter does not. With a particle
  of log-likelihood minus infinity, a scratch state that still holds a finite
  log-likelihood, and a proposal of log-prior minus infinity that leaves the
  log-likelihood alone, the move is accepted: the particle is swapped with the scratch
  state and \<^verbatim>\<open>naccept\<close> becomes 1, and a whole \<^verbatim>\<open>rejuvenate\<close> over that one particle
  ends with an acceptance rate of 1.
\<close>

theorem nonfinite_prior_accepted_on_stale_likelihood:
  "filter_propose example_collaborators 0 (example_schedule ! 0) (example_particle NInf)
       (example_particle (Fin 0)) ()
     = (None, 0, (example_particle (Fin 0))\<lparr>logPrior := NInf\<rparr>, ())
   \<and> \<not> is_finite (logPrior ((example_particle (Fin 0))\<lparr>logPrior := NInf\<rparr>))
   \<and> rejuvenate_move example_collaborators example_schedule 0 1 False ()
       (0, example_particle NInf, (), example_particle (Fin 0), (), 0)
     = (0, (example_particle (Fin 0))\<lparr>logPrior := NInf\<rparr>, (), example_particle NInf, (), 1)
   \<and> s1s example_degenerate_population = [example_particle NInf]
   \<and> s2 example_degenerate_population = example_particle (Fin 0)
   \<and> s1s (snd (snd (rejuvenate example_collaborators example_schedule 0 1
          (example_sampler 1 True, 0, example_degenerate_population))))
       = [(example_particle (Fin 0))\<lparr>logPrior := NInf\<rparr>]
   \<and> lastAcceptRate (fst (rejuvenate example_collaborators example_schedule 0 1
          (example_sampler 1 True, 0, example_degenerate_population))) = Fin 1"
  by (simp add: rejuvenate_def rejuvenate_particle_def rejuvenate_move_def
      propose_replacement_def accept_or_reject_def example_collaborators_def
      example_particle_def example_degenerate_population_def example_sampler_def
      size_of_def double_of_int_def Let_def)

section \<open>Properties of init\<close>

lemma fold_upt_Suc: "fold f [0..<Suc k] x = f k (fold f [0..<k] x)"
  by simp

lemma init_particle_inv:
  assumes "init_inv E now inInit s k s'" and "k < size_of s"
  shows "init_inv E now inInit s (Suc k) (snd (init_particle E now inInit k (rng, s')))"
proof -
  obtain rng1 a out1 where i: "filter_init E rng now (s1s s' ! k) (out1s s' ! k) inInit = (rng1, a, out1)"
    by (cases "filter_init E rng now (s1s s' ! k) (out1s s' ! k) inInit") auto
  obtain rng2 b where c: "filter_correct E rng1 now a = (rng2, b)"
    by (cases "filter_correct E rng1 now a") auto
  have same: "s1s s' ! k = s1s s ! k" "out1s s' ! k = out1s s ! k"
    using assms(1) by (simp_all add: init_inv_def)
  have len: "k < length (s1s s')" "k < length (out1s s')" "k < length (logWeights s')"
    "k < length (ancestors s')"
    using assms by (simp_all add: init_inv_def size_invariant_def size_of_def)
  have corr: "corrected_at_t0 E now inInit (s1s s ! k) (out1s s ! k) b"
    unfolding corrected_at_t0_def
  proof (intro exI)
    show "b = snd (filter_correct E rng1 now (fst (snd (filter_init E rng now (s1s s ! k) (out1s s ! k) inInit))))"
      using i c same by simp
  qed
  have res: "init_particle E now inInit k (rng, s') =
      (rng2, s'\<lparr>s1s := (s1s s')[k := b],
                 out1s := (out1s s')[k := filter_output E now b (filter_output0 E a out1)],
                 logWeights := (logWeights s')[k := FilterState.logLikelihood b],
                 ancestors := (ancestors s')[k := int k]\<rparr>)"
    by (simp add: init_particle_def i c Let_def)
  show ?thesis
    unfolding res
    using assms len corr
    by (auto simp: init_inv_def size_invariant_def size_of_def nth_list_update less_Suc_eq)
qed

lemma init_particles_inv:
  assumes "size_invariant s" and "k \<le> size_of s"
  shows "init_inv E now inInit s k (snd (fold (init_particle E now inInit) [0..<k] (rng, s)))"
  using assms(2)
proof (induction k)
  case 0
  show ?case using assms(1) by (simp add: init_inv_def)
next
  case (Suc k)
  obtain rng1 s1 where f: "fold (init_particle E now inInit) [0..<k] (rng, s) = (rng1, s1)"
    by (cases "fold (init_particle E now inInit) [0..<k] (rng, s)") auto
  have "init_inv E now inInit s k s1" using Suc f by simp
  then have "init_inv E now inInit s (Suc k) (snd (init_particle E now inInit k (rng1, s1)))"
    using Suc.prems by (intro init_particle_inv) simp_all
  then show ?case using f by (simp only: fold_upt_Suc)
qed

text \<open>
  C7. After \<^verbatim>\<open>init\<close> on a population that satisfies the size invariant, for every
  particle index \<open>p\<close> below the size, \<^verbatim>\<open>logWeights[p]\<close> is the log-likelihood of that
  particle's state, which is its state after the correction at the first schedule element,
  and \<^verbatim>\<open>ancestors[p] = p\<close>; the output is cleared, \<^verbatim>\<open>lastResample\<close> is false and
  \<^verbatim>\<open>lastAcceptRate\<close> is 0.
\<close>

theorem init_sets_weights_and_ancestors:
  assumes "size_invariant s"
  shows "case init E sched first inInit (sir, rng, s, out) of
           (sir', rng', s', out') \<Rightarrow>
             (\<forall>p<size_of s.
                 logWeights s' ! p = FilterState.logLikelihood (s1s s' ! p)
                 \<and> corrected_at_t0 E (sched ! first) inInit (s1s s ! p) (out1s s ! p) (s1s s' ! p)
                 \<and> ancestors s' ! p = int p)
             \<and> size_of s' = size_of s \<and> size_invariant s'
             \<and> out' = out_clear E out
             \<and> lastResample sir' = False
             \<and> lastAcceptRate sir' = Fin 0"
proof -
  obtain rng1 s1 where f:
    "fold (init_particle E (sched ! first) inInit) [0..<size_of s] (rng, s) = (rng1, s1)"
    by (cases "fold (init_particle E (sched ! first) inInit) [0..<size_of s] (rng, s)") auto
  have "init_inv E (sched ! first) inInit s (size_of s) s1"
    using init_particles_inv [OF assms, of "size_of s" E "sched ! first" inInit rng] f by simp
  then show ?thesis
    by (simp add: init_def f init_inv_def Let_def)
qed

theorem init_sets_weights_and_ancestors_witness:
  "size_invariant example_population
   \<and> (case init example_collaborators example_schedule 0 ()
              (example_sampler 1 True, 0, example_population, ()) of
         (sir', rng', s', out') \<Rightarrow>
           logWeights s' ! 1 = FilterState.logLikelihood (s1s s' ! 1)
           \<and> corrected_at_t0 example_collaborators (example_schedule ! 0) ()
                 (s1s example_population ! 1) (out1s example_population ! 1) (s1s s' ! 1)
           \<and> ancestors s' ! 1 = 1
           \<and> size_of s' = size_of example_population
           \<and> out' = out_clear example_collaborators ()
           \<and> lastResample sir' = False
           \<and> lastAcceptRate sir' = Fin 0)"
proof -
  have h: "size_invariant example_population"
    by (simp add: size_invariant_def size_of_def example_population_def)
  have p: "1 < size_of example_population"
    by (simp add: size_of_def example_population_def)
  from init_sets_weights_and_ancestors [OF h, where E = example_collaborators
      and sched = example_schedule and first = 0 and inInit = "()"
      and sir = "example_sampler 1 True" and rng = 0 and out = "()"] p h
  show ?thesis by (auto split: prod.splits)
qed

section \<open>Properties of term\<close>

lemma samplePath_particle_inv:
  assumes "samplePath_inv E s k s'" and "k < size_of s" and "k < length (out1s s)"
  shows "samplePath_inv E s (Suc k) (snd (samplePath_particle E k (rng, s')))"
proof -
  obtain rng1 a out1 where i: "filter_samplePath E rng (s1s s' ! k) (out1s s' ! k) = (rng1, a, out1)"
    by (cases "filter_samplePath E rng (s1s s' ! k) (out1s s' ! k)") auto
  have same: "s1s s' ! k = s1s s ! k" "out1s s' ! k = out1s s ! k"
    using assms(1) by (simp_all add: samplePath_inv_def)
  have len: "k < length (s1s s')" "k < length (out1s s')"
    using assms by (simp_all add: samplePath_inv_def size_of_def)
  have sampled: "path_sampled E (s1s s ! k) (out1s s ! k) a out1"
    unfolding path_sampled_def
  proof (intro exI)
    show "(a, out1) = snd (filter_samplePath E rng (s1s s ! k) (out1s s ! k))"
      using i same by simp
  qed
  have res: "samplePath_particle E k (rng, s') =
      (rng1, s'\<lparr>s1s := (s1s s')[k := a], out1s := (out1s s')[k := out1]\<rparr>)"
    by (simp add: samplePath_particle_def i)
  show ?thesis
    unfolding res
    using assms len sampled
    by (auto simp: samplePath_inv_def size_of_def nth_list_update less_Suc_eq)
qed

lemma samplePath_particles_inv:
  assumes "k \<le> size_of s" and "k \<le> length (out1s s)"
  shows "samplePath_inv E s k (snd (fold (samplePath_particle E) [0..<k] (rng, s)))"
  using assms
proof (induction k)
  case 0
  show ?case by (simp add: samplePath_inv_def)
next
  case (Suc k)
  obtain rng1 s1 where f: "fold (samplePath_particle E) [0..<k] (rng, s) = (rng1, s1)"
    by (cases "fold (samplePath_particle E) [0..<k] (rng, s)") auto
  have "samplePath_inv E s k s1" using Suc f by simp
  then have "samplePath_inv E s (Suc k) (snd (samplePath_particle E k (rng1, s1)))"
    using Suc.prems by (intro samplePath_particle_inv) simp_all
  then show ?case using f by (simp only: fold_upt_Suc)
qed

lemma samplePath_particles_logLikelihood:
  "logLikelihood (snd (fold (samplePath_particle E) ps (r, x))) = logLikelihood x"
proof (induction ps arbitrary: r x)
  case Nil
  show ?case by simp
next
  case (Cons p ps)
  obtain r1 x1 where sp: "samplePath_particle E p (r, x) = (r1, x1)"
    by (cases "samplePath_particle E p (r, x)") auto
  have "logLikelihood x1 = logLikelihood x"
    using sp by (auto simp: samplePath_particle_def split: prod.splits)
  then show ?case using Cons.IH [of r1 x1] sp by simp
qed

lemma sum_exp_equal:
  "foldr dadd (map dexp (replicate n (Fin w))) (Fin 0) = Fin (real n * exp w)"
  by (induction n) (simp_all add: algebra_simps)

lemma logsumexp_equal_weights:
  assumes "0 < n"
  shows "dsub (logsumexp_reduce (replicate n (Fin w))) (dlog (double_of_int (int n))) = Fin w"
proof -
  have pos: "0 < real n * exp w" using assms by simp
  have "ln (real n * exp w) = ln (real n) + w"
    using assms by (simp add: ln_mult)
  then show ?thesis
    unfolding logsumexp_reduce_def sum_exp_equal
    using assms pos by (simp add: double_of_int_def dsub_def)
qed

text \<open>
  C6. \<^verbatim>\<open>term\<close> adds \<open>logsumexp(logWeights) - log(size)\<close> to the \<^verbatim>\<open>logLikelihood\<close> of the
  population, and then applies \<^verbatim>\<open>filter.samplePath\<close> to every particle (of a population
  that satisfies the size invariant). In particular, with four particles, all log-weights
  2 and a log-likelihood of 10 before the call, the log-likelihood is 12 after it. The
  log-sum-exp is the one of the specification, in exact arithmetic.
\<close>

theorem term_finalises_logLikelihood:
  "logLikelihood (snd (term_sir E (rng, s)))
     = dadd (logLikelihood s)
            (dsub (logsumexp_reduce (logWeights s)) (dlog (double_of_int (int (size_of s)))))
   \<and> (size_invariant s \<longrightarrow>
        (\<forall>p<size_of s. path_sampled E (s1s s ! p) (out1s s ! p)
                         (s1s (snd (term_sir E (rng, s))) ! p)
                         (out1s (snd (term_sir E (rng, s))) ! p)))
   \<and> (size_of s = 4 \<and> logWeights s = [Fin 2, Fin 2, Fin 2, Fin 2] \<and> logLikelihood s = Fin 10
        \<longrightarrow> logLikelihood (snd (term_sir E (rng, s))) = Fin 12)"
proof -
  let ?ll = "dadd (logLikelihood s)
            (dsub (logsumexp_reduce (logWeights s)) (dlog (double_of_int (int (size_of s)))))"
  let ?s0 = "s\<lparr>logLikelihood := ?ll\<rparr>"
  have t: "term_sir E (rng, s) = fold (samplePath_particle E) [0..<size_of s] (rng, ?s0)"
    by (simp add: term_sir_def Let_def size_of_def)
  have sz: "size_of ?s0 = size_of s" by (simp add: size_of_def)
  have a: "logLikelihood (snd (term_sir E (rng, s))) = ?ll"
    by (simp add: t samplePath_particles_logLikelihood)
  have b: "\<forall>p<size_of s. path_sampled E (s1s s ! p) (out1s s ! p)
                         (s1s (snd (term_sir E (rng, s))) ! p)
                         (out1s (snd (term_sir E (rng, s))) ! p)"
    if "size_invariant s"
  proof -
    have "samplePath_inv E ?s0 (size_of s) (snd (term_sir E (rng, s)))"
      unfolding t
      using that
      by (intro samplePath_particles_inv) (simp_all add: size_invariant_def size_of_def)
    then show ?thesis by (simp add: samplePath_inv_def)
  qed
  have c: "logLikelihood (snd (term_sir E (rng, s))) = Fin 12"
    if "size_of s = 4 \<and> logWeights s = [Fin 2, Fin 2, Fin 2, Fin 2] \<and> logLikelihood s = Fin 10"
  proof -
    have r: "[Fin 2, Fin 2, Fin 2, Fin 2] = replicate 4 (Fin 2)"
      by (simp add: numeral_eq_Suc)
    have "dsub (logsumexp_reduce (logWeights s)) (dlog (double_of_int (int (size_of s)))) = Fin 2"
      using that logsumexp_equal_weights [of 4 2] by (simp add: r)
    then show ?thesis using that by (simp add: a)
  qed
  from a b c show ?thesis by blast
qed

theorem term_finalises_logLikelihood_witness:
  "size_invariant example_population4
   \<and> size_of example_population4 = 4
   \<and> logWeights example_population4 = [Fin 2, Fin 2, Fin 2, Fin 2]
   \<and> logLikelihood example_population4 = Fin 10
   \<and> logLikelihood (snd (term_sir example_collaborators (0, example_population4))) = Fin 12
   \<and> path_sampled example_collaborators
         (s1s example_population4 ! 3) (out1s example_population4 ! 3)
         (s1s (snd (term_sir example_collaborators (0, example_population4))) ! 3)
         (out1s (snd (term_sir example_collaborators (0, example_population4))) ! 3)"
proof -
  have h1: "size_invariant example_population4"
    by (simp add: size_invariant_def size_of_def example_population4_def)
  have h2: "size_of example_population4 = 4
      \<and> logWeights example_population4 = [Fin 2, Fin 2, Fin 2, Fin 2]
      \<and> logLikelihood example_population4 = Fin 10"
    by (simp add: size_of_def example_population4_def)
  note t = term_finalises_logLikelihood [where s = example_population4
      and E = example_collaborators and rng = 0]
  from t h2 have c1: "logLikelihood (snd (term_sir example_collaborators (0, example_population4))) = Fin 12"
    by blast
  from t h1 have "\<forall>p<size_of example_population4.
         path_sampled example_collaborators
           (s1s example_population4 ! p) (out1s example_population4 ! p)
           (s1s (snd (term_sir example_collaborators (0, example_population4))) ! p)
           (out1s (snd (term_sir example_collaborators (0, example_population4))) ! p)"
    by blast
  then have c2: "path_sampled example_collaborators
         (s1s example_population4 ! 3) (out1s example_population4 ! 3)
         (s1s (snd (term_sir example_collaborators (0, example_population4))) ! 3)
         (out1s (snd (term_sir example_collaborators (0, example_population4))) ! 3)"
    using h2 by simp
  from h1 h2 c1 c2 show ?thesis by blast
qed

section \<open>Properties of step\<close>

lemma advanced_from_reached:
  assumes "advanced_from E sched iter lst s1 out1 w s1' out1' w' it"
  shows "\<exists>r. it = fst (snd (filter_step E r sched iter lst s1 out1))"
proof -
  obtain r where r: "case filter_step E r sched iter lst s1 out1 of
      (r', reached, a, b) \<Rightarrow>
        s1' = a \<and> out1' = b \<and> it = reached
        \<and> w' = dadd w (FilterState.logIncrements a ! indexObs (sched ! reached))"
    using assms unfolding advanced_from_def ..
  obtain r' reached a b where f: "filter_step E r sched iter lst s1 out1 = (r', reached, a, b)"
    by (cases "filter_step E r sched iter lst s1 out1") auto
  from r f have "it = reached" by simp
  with f have "it = fst (snd (filter_step E r sched iter lst s1 out1))" by simp
  then show ?thesis by blast
qed

lemma advance_particle_inv:
  assumes "advance_inv E sched iter lst s i0 k s' i1" and "k < size_of s"
  shows "case advance_particle E sched iter lst k (rng, s', i1) of
           (rng', s'', i1') \<Rightarrow> advance_inv E sched iter lst s i0 (Suc k) s'' i1'"
proof -
  obtain rng1 it a b where i:
    "filter_step E rng sched iter lst (s1s s' ! k) (out1s s' ! k) = (rng1, it, a, b)"
    by (cases "filter_step E rng sched iter lst (s1s s' ! k) (out1s s' ! k)") auto
  have same: "s1s s' ! k = s1s s ! k" "out1s s' ! k = out1s s ! k"
    "logWeights s' ! k = logWeights s ! k"
    using assms(1) by (simp_all add: advance_inv_def)
  have len: "k < length (s1s s')" "k < length (out1s s')" "k < length (logWeights s')"
    using assms by (simp_all add: advance_inv_def size_invariant_def size_of_def)
  let ?w = "dadd (logWeights s' ! k) (FilterState.logIncrements a ! indexObs (sched ! it))"
  let ?s'' = "s'\<lparr>s1s := (s1s s')[k := a], out1s := (out1s s')[k := b],
                 logWeights := (logWeights s')[k := ?w]\<rparr>"
  have adv: "advanced_from E sched iter lst (s1s s ! k) (out1s s ! k) (logWeights s ! k) a b ?w it"
    unfolding advanced_from_def
  proof (intro exI)
    show "case filter_step E rng sched iter lst (s1s s ! k) (out1s s ! k) of
            (r', reached, a', b') \<Rightarrow> a = a' \<and> b = b' \<and> it = reached
              \<and> ?w = dadd (logWeights s ! k) (FilterState.logIncrements a' ! indexObs (sched ! reached))"
      using i same by simp
  qed
  have old: "advance_slots E sched iter lst s k s' i1"
    using assms(1) by (simp add: advance_inv_def)
  have slots: "advance_slots E sched iter lst s (Suc k) ?s'' (Some it)"
    unfolding advance_slots_def
  proof (intro allI impI)
    fix p
    assume p: "p < Suc k"
    show "\<exists>reached.
        advanced_from E sched iter lst (s1s s ! p) (out1s s ! p) (logWeights s ! p)
          (s1s ?s'' ! p) (out1s ?s'' ! p) (logWeights ?s'' ! p) reached
        \<and> (Suc p = Suc k \<longrightarrow> Some it = Some reached)"
    proof (cases "p = k")
      case True
      have "advanced_from E sched iter lst (s1s s ! p) (out1s s ! p) (logWeights s ! p)
          (s1s ?s'' ! p) (out1s ?s'' ! p) (logWeights ?s'' ! p) it"
        using True adv len by simp
      then show ?thesis by blast
    next
      case False
      then have pk: "p < k" using p by simp
      then have "\<exists>reached.
          advanced_from E sched iter lst (s1s s ! p) (out1s s ! p) (logWeights s ! p)
            (s1s s' ! p) (out1s s' ! p) (logWeights s' ! p) reached
          \<and> (Suc p = k \<longrightarrow> i1 = Some reached)"
        using old by (simp add: advance_slots_def)
      then obtain reached where
        "advanced_from E sched iter lst (s1s s ! p) (out1s s ! p) (logWeights s ! p)
          (s1s s' ! p) (out1s s' ! p) (logWeights s' ! p) reached"
        by (elim exE conjE)
      then have "advanced_from E sched iter lst (s1s s ! p) (out1s s ! p) (logWeights s ! p)
          (s1s ?s'' ! p) (out1s ?s'' ! p) (logWeights ?s'' ! p) reached"
        using False by simp
      then show ?thesis using False by blast
    qed
  qed
  have res: "advance_particle E sched iter lst k (rng, s', i1) = (rng1, ?s'', Some it)"
    by (simp add: advance_particle_def i Let_def)
  have rest: "size_of ?s'' = size_of s \<and> size_invariant ?s''
      \<and> ancestors ?s'' = ancestors s \<and> ess ?s'' = ess s \<and> logLikelihood ?s'' = logLikelihood s
      \<and> logIncrements ?s'' = logIncrements s \<and> s2 ?s'' = s2 s \<and> out2 ?s'' = out2 s
      \<and> (\<forall>p\<ge>Suc k. s1s ?s'' ! p = s1s s ! p \<and> out1s ?s'' ! p = out1s s ! p
                   \<and> logWeights ?s'' ! p = logWeights s ! p)"
    using assms(1) by (auto simp: advance_inv_def size_invariant_def size_of_def)
  show ?thesis
    unfolding res using slots rest by (simp add: advance_inv_def)
qed

lemma advance_particles_inv:
  assumes "size_invariant s" and "k \<le> size_of s"
  shows "case fold (advance_particle E sched iter lst) [0..<k] (rng, s, i0) of
           (rng', s', i1) \<Rightarrow> advance_inv E sched iter lst s i0 k s' i1"
  using assms(2)
proof (induction k)
  case 0
  show ?case using assms(1) by (simp add: advance_inv_def advance_slots_def)
next
  case (Suc k)
  obtain rng1 s1 i1 where f:
    "fold (advance_particle E sched iter lst) [0..<k] (rng, s, i0) = (rng1, s1, i1)"
    by (cases "fold (advance_particle E sched iter lst) [0..<k] (rng, s, i0)") auto
  have "advance_inv E sched iter lst s i0 k s1 i1" using Suc f by simp
  then have "case advance_particle E sched iter lst k (rng1, s1, i1) of
           (rng', s'', i1') \<Rightarrow> advance_inv E sched iter lst s i0 (Suc k) s'' i1'"
    using Suc.prems by (intro advance_particle_inv) simp_all
  then show ?case using f by (simp only: fold_upt_Suc)
qed

lemma rejuvenate_frame_eq:
  "frame_eq s (snd (snd (rejuvenate E sched first lst (sir, rng, s))))"
  using rejuvenate_particles_frame [where s = s and E = E and sched = sched and first = first
      and lst = lst and ready = "adapter_ready E (adapter sir)" and ad = "adapter sir"
      and n = "nmoves sir" and ps = "[0..<size_of s]" and rng = rng and k = 0]
  by (auto simp: rejuvenate_def frame_eq_def Let_def split: prod.splits)

lemma frame_eq_size_invariant:
  "frame_eq s s' \<Longrightarrow> size_invariant s \<Longrightarrow> size_invariant s' \<and> size_of s' = size_of s"
  by (simp add: frame_eq_def size_invariant_def size_of_def)

lemma step_pass_head_keeps_size:
  assumes "resampler_keeps_size E" and "size_invariant s"
  shows "case step_pass_head E sched first (sir, rng, s, iter, i1) of
           (sir', rng', s', iter', i1') \<Rightarrow>
             size_invariant s' \<and> size_of s' = size_of s \<and> iter' = iter \<and> i1' = i1"
proof -
  obtain r rng1 s1 where rs: "resam_resample E rng (sched ! iter) s = (r, rng1, s1)"
    by (cases "resam_resample E rng (sched ! iter) s") auto
  have s1: "size_invariant s1 \<and> size_of s1 = size_of s"
    using assms rs
      resampler_keeps_size_def [of E]
    by (metis snd_conv)
  let ?sir1 = "(adapt E s sir)\<lparr>lastResample := r\<rparr>"
  obtain sir2 rng2 s2' where rj:
    "rejuvenate E sched first (iter + 1) (?sir1, rng1, s1) = (sir2, rng2, s2')"
    by (cases "rejuvenate E sched first (iter + 1) (?sir1, rng1, s1)") auto
  have "frame_eq s1 s2'"
    using rejuvenate_frame_eq [of s1 E sched first "iter + 1" ?sir1 rng1] rj by simp
  then have "size_invariant s2' \<and> size_of s2' = size_of s"
    using s1 frame_eq_size_invariant by metis
  moreover have "rejuvenate E sched first (Suc iter) (?sir1, rng1, s1) = (sir2, rng2, s2')"
    using rj by simp
  ultimately show ?thesis
    by (simp add: step_pass_head_def resample_def rs Let_def)
qed

lemma step_pass_ok:
  assumes adv: "filter_advances E sched lst" and rk: "resampler_keeps_size E"
    and rdy: "pass_ready lst (sir, rng, s, iter, i1)"
  shows "\<exists>sir' rng' s' it'.
           step_pass E sched first lst (sir, rng, s, iter, i1) = Inr (sir', rng', s', it', Some it')
           \<and> size_invariant s' \<and> size_of s' = size_of s \<and> iter < it' \<and> it' < lst
           \<and> pass_advanced E sched lst (step_pass_head E sched first (sir, rng, s, iter, i1))
                (sir', rng', s', it', Some it')"
proof -
  have inv: "size_invariant s" and pos: "0 < size_of s" and rng: "iter + 1 < lst"
    using rdy by (simp_all add: pass_ready_def)
  obtain sirh rngh sh iterh i1h where h:
    "step_pass_head E sched first (sir, rng, s, iter, i1) = (sirh, rngh, sh, iterh, i1h)"
    by (cases "step_pass_head E sched first (sir, rng, s, iter, i1)") auto
  have hs: "size_invariant sh" "size_of sh = size_of s" "iterh = iter"
    using step_pass_head_keeps_size [OF rk inv, where sched = sched and first = first
        and sir = sir and rng = rng and iter = iter and ?i1.0 = i1] h
    by simp_all
  obtain rng' s' i1' where f:
    "fold (advance_particle E sched iter lst) [0..<size_of sh] (rngh, sh, i1h) = (rng', s', i1')"
    by (cases "fold (advance_particle E sched iter lst) [0..<size_of sh] (rngh, sh, i1h)") auto
  have ai: "advance_inv E sched iter lst sh i1h (size_of sh) s' i1'"
    using advance_particles_inv [OF hs(1), where k = "size_of sh" and E = E and sched = sched
        and iter = iter and lst = lst and rng = rngh and ?i0.0 = i1h] f
    by simp
  have sl: "advance_slots E sched iter lst sh (size_of sh) s' i1'"
    using ai by (simp add: advance_inv_def)
  have "size_of sh - 1 < size_of sh" "Suc (size_of sh - 1) = size_of sh"
    using pos hs(2) by simp_all
  then obtain it where it:
    "advanced_from E sched iter lst (s1s sh ! (size_of sh - 1)) (out1s sh ! (size_of sh - 1))
       (logWeights sh ! (size_of sh - 1)) (s1s s' ! (size_of sh - 1))
       (out1s s' ! (size_of sh - 1)) (logWeights s' ! (size_of sh - 1)) it"
    and i1': "i1' = Some it"
    using sl unfolding advance_slots_def by blast
  obtain r where "it = fst (snd (filter_step E r sched iter lst
        (s1s sh ! (size_of sh - 1)) (out1s sh ! (size_of sh - 1))))"
    using advanced_from_reached [OF it] by blast
  then have bounds: "iter < it \<and> it < lst"
    using adv rng by (simp add: filter_advances_def)
  have sp: "step_pass E sched first lst (sir, rng, s, iter, i1) = Inr (sirh, rng', s', it, Some it)"
    by (simp add: step_pass_def h hs(3) f i1')
  have pa: "pass_advanced E sched lst (step_pass_head E sched first (sir, rng, s, iter, i1))
                (sirh, rng', s', it, Some it)"
    using ai sl i1' by (simp add: pass_advanced_def h hs(3) advance_inv_def)
  have sz: "size_invariant s' \<and> size_of s' = size_of s"
    using ai hs(2) by (simp add: advance_inv_def)
  from sp sz bounds pa show ?thesis by blast
qed

lemma step_pass_head_calls:
  "step_pass_head E sched first (sir, rng, s, iter, i1) =
     (case resam_resample E rng (sched ! iter) s of
        (resampled, rng_a, s_a) \<Rightarrow>
          (case rejuvenate E sched first (iter + 1)
                  (sir\<lparr>adapter :=
                         (if adapter_ready E (adapter_add E s (adapter_clear E (adapter sir)))
                          then adapter_adapt E (adapter_add E s (adapter_clear E (adapter sir)))
                          else adapter_add E s (adapter_clear E (adapter sir))),
                       lastResample := resampled\<rparr>,
                   rng_a, s_a) of
             (sir_b, rng_b, s_b) \<Rightarrow>
               (sir_b\<lparr>cerr := cerr sir_b @
                   [\<lparr>line_index = indexOutput (sched ! iter), line_time = getTime (sched ! iter),
                     line_ess = ess s_b,
                     line_rate = (if lastResample sir_b then Some (lastAcceptRate sir_b)
                                  else None)\<rparr>]\<rparr>,
                rng_b, s_b, iter, i1)))"
proof -
  obtain r rng1 s1 where rs: "resam_resample E rng (sched ! iter) s = (r, rng1, s1)"
    by (cases "resam_resample E rng (sched ! iter) s") auto
  show ?thesis
    by (simp add: step_pass_head_def adapt_def resample_def report_def rs Let_def)
qed

lemma step_loop_terminates:
  assumes adv: "filter_advances E sched lst" and rk: "resampler_keeps_size E"
    and rdy: "pass_ready lst st"
  shows "\<exists>n st'. 0 < n \<and> step_passes E sched first lst n st = Inr st'
           \<and> \<not> loop_continues sched lst st'
           \<and> (\<forall>k<n. \<exists>stk. step_passes E sched first lst k st = Inr stk \<and> pass_ready lst stk
                          \<and> (0 < k \<longrightarrow> loop_continues sched lst stk))
           \<and> step_loop E sched first lst st = Some (Inr st')
           \<and> size_invariant (fst (snd (snd st')))"
  using rdy
proof (induction "lst - fst (snd (snd (snd st)))" arbitrary: st rule: less_induct)
  case less
  obtain sir rng s iter i1 where st: "st = (sir, rng, s, iter, i1)" by (cases st) auto
  have rdy': "pass_ready lst (sir, rng, s, iter, i1)" using less.prems st by simp
  obtain sir' rng' s' it' where
    sp: "step_pass E sched first lst (sir, rng, s, iter, i1) = Inr (sir', rng', s', it', Some it')"
    and sz: "size_invariant s'" "size_of s' = size_of s"
    and b: "iter < it'" "it' < lst"
    using step_pass_ok [OF adv rk rdy', of first] by blast
  let ?st1 = "(sir', rng', s', it', Some it')"
  show ?case
  proof (cases "loop_continues sched lst ?st1")
    case False
    have l: "step_loop E sched first lst st = Some (Inr ?st1)"
      using False sp st by (subst step_loop.simps) (auto simp: loop_continues_def)
    have p: "step_passes E sched first lst (Suc 0) st = Inr ?st1"
      using sp st by simp
    have mid: "\<forall>k<Suc 0. \<exists>stk. step_passes E sched first lst k st = Inr stk \<and> pass_ready lst stk
                          \<and> (0 < k \<longrightarrow> loop_continues sched lst stk)"
      using less.prems by simp
    have "0 < Suc 0 \<and> step_passes E sched first lst (Suc 0) st = Inr ?st1
           \<and> \<not> loop_continues sched lst ?st1
           \<and> (\<forall>k<Suc 0. \<exists>stk. step_passes E sched first lst k st = Inr stk \<and> pass_ready lst stk
                          \<and> (0 < k \<longrightarrow> loop_continues sched lst stk))
           \<and> step_loop E sched first lst st = Some (Inr ?st1)
           \<and> size_invariant (fst (snd (snd ?st1)))"
      using False l p sz mid by simp
    then show ?thesis by blast
  next
    case True
    then have "it' + 1 \<noteq> lst" by (simp add: loop_continues_def)
    with b have "it' + 1 < lst" by simp
    moreover have "0 < size_of s'" using sz rdy' by (simp add: pass_ready_def)
    ultimately have rdy1: "pass_ready lst ?st1" using sz by (simp add: pass_ready_def)
    have m: "lst - fst (snd (snd (snd ?st1))) < lst - fst (snd (snd (snd st)))"
      using b st by simp
    obtain n st' where n: "0 < n" "step_passes E sched first lst n ?st1 = Inr st'"
      "\<not> loop_continues sched lst st'"
      "\<forall>k<n. \<exists>stk. step_passes E sched first lst k ?st1 = Inr stk \<and> pass_ready lst stk
                          \<and> (0 < k \<longrightarrow> loop_continues sched lst stk)"
      "step_loop E sched first lst ?st1 = Some (Inr st')"
      "size_invariant (fst (snd (snd st')))"
      using less.hyps [OF m rdy1] by blast
    have l: "step_loop E sched first lst st = Some (Inr st')"
      using True sp st n(5) by (subst step_loop.simps) (auto simp: loop_continues_def)
    have p: "step_passes E sched first lst (Suc n) st = Inr st'"
      using sp st n(2) by simp
    have mid: "\<exists>stk. step_passes E sched first lst k st = Inr stk \<and> pass_ready lst stk
                          \<and> (0 < k \<longrightarrow> loop_continues sched lst stk)"
      if k: "k < Suc n" for k
    proof (cases k)
      case 0
      then show ?thesis using less.prems by simp
    next
      case (Suc j)
      then have "j < n" using k by simp
      then obtain stk where stk: "step_passes E sched first lst j ?st1 = Inr stk"
        "pass_ready lst stk" "0 < j \<longrightarrow> loop_continues sched lst stk"
        using n(4) by blast
      show ?thesis
      proof (cases "j = 0")
        case True
        then show ?thesis using Suc sp st stk \<open>loop_continues sched lst ?st1\<close> by simp
      next
        case False
        then show ?thesis using Suc sp st stk by simp
      qed
    qed
    have "0 < Suc n \<and> step_passes E sched first lst (Suc n) st = Inr st'
           \<and> \<not> loop_continues sched lst st'
           \<and> (\<forall>k<Suc n. \<exists>stk. step_passes E sched first lst k st = Inr stk \<and> pass_ready lst stk
                          \<and> (0 < k \<longrightarrow> loop_continues sched lst stk))
           \<and> step_loop E sched first lst st = Some (Inr st')
           \<and> size_invariant (fst (snd (snd st')))"
      using p n(3) mid l n(6) by blast
    then show ?thesis by blast
  qed
qed

lemma step_passes_Suc:
  "step_passes E sched first lst (Suc n) st =
     (case step_passes E sched first lst n st of
        Inl f \<Rightarrow> Inl f
      | Inr st' \<Rightarrow> step_pass E sched first lst st')"
proof (induction n arbitrary: st)
  case 0
  show ?case by (simp split: sum.splits)
next
  case (Suc n)
  show ?case
  proof (cases "step_pass E sched first lst st")
    case (Inl f)
    then show ?thesis by simp
  next
    case (Inr st1)
    have "step_passes E sched first lst (Suc (Suc n)) st = step_passes E sched first lst (Suc n) st1"
      using Inr by simp
    also have "\<dots> = (case step_passes E sched first lst n st1 of
        Inl f \<Rightarrow> Inl f | Inr st' \<Rightarrow> step_pass E sched first lst st')"
      by (rule Suc.IH)
    also have "step_passes E sched first lst n st1 = step_passes E sched first lst (Suc n) st"
      using Inr by simp
    finally show ?thesis .
  qed
qed

text \<open>
  C5. Let \<^verbatim>\<open>filter.step\<close> move the iterator forward without passing the end, let the
  resampler keep the size, and let \<^verbatim>\<open>step\<close> be called on a non-empty population with
  at least one schedule element after \<open>iter\<close>. Then \<^verbatim>\<open>step\<close> returns. It has run its
  pass some \<open>n > 0\<close> times, each pass from the state the one before it left: after each
  of the passes before the last, the schedule was not exhausted and the current element
  was not observed, and after the last pass the schedule is exhausted
  (\<open>iter + 1 = last\<close>) or the current element is observed.

  A pass begins with \<^verbatim>\<open>adapt\<close> (the adapter is cleared, fed the population, and adapted
  if it is ready), \<^verbatim>\<open>resample\<close> (the resampler runs at the current schedule element and
  its answer becomes \<^verbatim>\<open>lastResample\<close>), \<^verbatim>\<open>rejuvenate\<close> up to \<open>iter + 1\<close>, and
  \<^verbatim>\<open>report\<close> (one line, with the acceptance rate if a resample occurred). Then every
  particle's filter is advanced from the same position, the increment it left at the
  observation index of the position it reached is added to that particle's log-weight,
  and the new \<open>iter\<close> is the position that \<^verbatim>\<open>filter.step\<close> reached for the last particle.

  On exit \<^verbatim>\<open>ess\<close> is the first result of \<^verbatim>\<open>ess_reduce\<close> on the log-weights,
  \<^verbatim>\<open>logIncrements\<close> at the current observation index is the combined log-weight (the
  second result) minus \<^verbatim>\<open>logLikelihood\<close>, and \<^verbatim>\<open>logLikelihood\<close> is the combined
  log-weight.
\<close>

theorem step_repeats_until_observed:
  assumes adv: "filter_advances E sched lst" and rk: "resampler_keeps_size E"
    and inv: "size_invariant s" and pos: "0 < size_of s" and rng: "iter + 1 < lst"
  shows "(\<exists>n sir' rng' s' iter' i1.
            0 < n
            \<and> step_passes E sched first lst n (sir, rng, s, iter, None)
                = Inr (sir', rng', s', iter', i1)
            \<and> (iter' + 1 = lst \<or> isObserved (sched ! iter'))
            \<and> (\<forall>k<n. \<exists>stk. step_passes E sched first lst k (sir, rng, s, iter, None) = Inr stk
                           \<and> step_passes E sched first lst (Suc k) (sir, rng, s, iter, None)
                               = step_pass E sched first lst stk
                           \<and> pass_ready lst stk
                           \<and> (0 < k \<longrightarrow> loop_continues sched lst stk))
            \<and> step E sched first iter lst (sir, rng, s)
                = Some (Inr (sir', rng', step_exit E sched iter' s', iter')))
       \<and> (step_pass_head E sched first (sir0, rng0, s0, iter0, j0) =
     (case resam_resample E rng0 (sched ! iter0) s0 of
        (resampled, rng_a, s_a) \<Rightarrow>
          (case rejuvenate E sched first (iter0 + 1)
                  (sir0\<lparr>adapter :=
                         (if adapter_ready E (adapter_add E s0 (adapter_clear E (adapter sir0)))
                          then adapter_adapt E (adapter_add E s0 (adapter_clear E (adapter sir0)))
                          else adapter_add E s0 (adapter_clear E (adapter sir0))),
                       lastResample := resampled\<rparr>,
                   rng_a, s_a) of
             (sir_b, rng_b, s_b) \<Rightarrow>
               (sir_b\<lparr>cerr := cerr sir_b @
                   [\<lparr>line_index = indexOutput (sched ! iter0), line_time = getTime (sched ! iter0),
                     line_ess = ess s_b,
                     line_rate = (if lastResample sir_b then Some (lastAcceptRate sir_b)
                                  else None)\<rparr>]\<rparr>,
                rng_b, s_b, iter0, j0))))
       \<and> (\<forall>st st'. pass_ready lst st \<and> step_pass E sched first lst st = Inr st'
             \<longrightarrow> pass_advanced E sched lst (step_pass_head E sched first st) st')
       \<and> (ess (step_exit E sched it x) = fst (ess_reduce E (logWeights x))
           \<and> logIncrements (step_exit E sched it x)
                = (logIncrements x)[indexObs (sched ! it) :=
                     dsub (snd (ess_reduce E (logWeights x))) (logLikelihood x)]
           \<and> (indexObs (sched ! it) < length (logIncrements x)
                \<longrightarrow> logIncrements (step_exit E sched it x) ! indexObs (sched ! it)
                    = dsub (snd (ess_reduce E (logWeights x))) (logLikelihood x))
           \<and> logLikelihood (step_exit E sched it x) = snd (ess_reduce E (logWeights x))
           \<and> logWeights (step_exit E sched it x) = logWeights x)"
proof -
  have rdy: "pass_ready lst (sir, rng, s, iter, None)"
    using inv pos rng by (simp add: pass_ready_def)
  obtain n st' where n: "0 < n"
    "step_passes E sched first lst n (sir, rng, s, iter, None) = Inr st'"
    "\<not> loop_continues sched lst st'"
    "\<forall>k<n. \<exists>stk. step_passes E sched first lst k (sir, rng, s, iter, None) = Inr stk
                \<and> pass_ready lst stk \<and> (0 < k \<longrightarrow> loop_continues sched lst stk)"
    "step_loop E sched first lst (sir, rng, s, iter, None) = Some (Inr st')"
    using step_loop_terminates [OF adv rk rdy, of first] by blast
  obtain sir' rng' s' iter' i1 where st': "st' = (sir', rng', s', iter', i1)"
    by (cases st') auto
  have ex: "iter' + 1 = lst \<or> isObserved (sched ! iter')"
    using n(3) st' by (simp add: loop_continues_def)
  have stp: "step E sched first iter lst (sir, rng, s)
                = Some (Inr (sir', rng', step_exit E sched iter' s', iter'))"
    using n(5) st' by (simp add: step_def)
  have mid: "\<forall>k<n. \<exists>stk. step_passes E sched first lst k (sir, rng, s, iter, None) = Inr stk
                           \<and> step_passes E sched first lst (Suc k) (sir, rng, s, iter, None)
                               = step_pass E sched first lst stk
                           \<and> pass_ready lst stk
                           \<and> (0 < k \<longrightarrow> loop_continues sched lst stk)"
  proof (intro allI impI)
    fix k
    assume "k < n"
    then obtain stk where stk:
      "step_passes E sched first lst k (sir, rng, s, iter, None) = Inr stk"
      "pass_ready lst stk" "0 < k \<longrightarrow> loop_continues sched lst stk"
      using n(4) by blast
    have "step_passes E sched first lst (Suc k) (sir, rng, s, iter, None)
        = step_pass E sched first lst stk"
      by (simp only: step_passes_Suc stk(1) sum.case)
    with stk show "\<exists>stk. step_passes E sched first lst k (sir, rng, s, iter, None) = Inr stk
                           \<and> step_passes E sched first lst (Suc k) (sir, rng, s, iter, None)
                               = step_pass E sched first lst stk
                           \<and> pass_ready lst stk
                           \<and> (0 < k \<longrightarrow> loop_continues sched lst stk)"
      by blast
  qed
  have loop_part: "\<exists>n sir' rng' s' iter' i1.
            0 < n
            \<and> step_passes E sched first lst n (sir, rng, s, iter, None)
                = Inr (sir', rng', s', iter', i1)
            \<and> (iter' + 1 = lst \<or> isObserved (sched ! iter'))
            \<and> (\<forall>k<n. \<exists>stk. step_passes E sched first lst k (sir, rng, s, iter, None) = Inr stk
                           \<and> step_passes E sched first lst (Suc k) (sir, rng, s, iter, None)
                               = step_pass E sched first lst stk
                           \<and> pass_ready lst stk
                           \<and> (0 < k \<longrightarrow> loop_continues sched lst stk))
            \<and> step E sched first iter lst (sir, rng, s)
                = Some (Inr (sir', rng', step_exit E sched iter' s', iter'))"
    using n(1) n(2) [unfolded st'] ex mid stp by blast
  have head_part: "step_pass_head E sched first (sir0, rng0, s0, iter0, j0) =
     (case resam_resample E rng0 (sched ! iter0) s0 of
        (resampled, rng_a, s_a) \<Rightarrow>
          (case rejuvenate E sched first (iter0 + 1)
                  (sir0\<lparr>adapter :=
                         (if adapter_ready E (adapter_add E s0 (adapter_clear E (adapter sir0)))
                          then adapter_adapt E (adapter_add E s0 (adapter_clear E (adapter sir0)))
                          else adapter_add E s0 (adapter_clear E (adapter sir0))),
                       lastResample := resampled\<rparr>,
                   rng_a, s_a) of
             (sir_b, rng_b, s_b) \<Rightarrow>
               (sir_b\<lparr>cerr := cerr sir_b @
                   [\<lparr>line_index = indexOutput (sched ! iter0), line_time = getTime (sched ! iter0),
                     line_ess = ess s_b,
                     line_rate = (if lastResample sir_b then Some (lastAcceptRate sir_b)
                                  else None)\<rparr>]\<rparr>,
                rng_b, s_b, iter0, j0)))"
    by (rule step_pass_head_calls)
  have advance_part: "\<forall>st st'. pass_ready lst st \<and> step_pass E sched first lst st = Inr st'
             \<longrightarrow> pass_advanced E sched lst (step_pass_head E sched first st) st'"
  proof (intro allI impI)
    fix st st1
    assume h: "pass_ready lst st \<and> step_pass E sched first lst st = Inr st1"
    obtain a b c d e where st: "st = (a, b, c, d, e)" by (cases st) auto
    from h st have r: "pass_ready lst (a, b, c, d, e)" by simp
    from step_pass_ok [OF adv rk r, of first] h st
    show "pass_advanced E sched lst (step_pass_head E sched first st) st1" by auto
  qed
  have e1: "ess (step_exit E sched it x) = fst (ess_reduce E (logWeights x))"
    by (simp add: step_exit_def Let_def split: prod.splits)
  have e2: "logIncrements (step_exit E sched it x)
                = (logIncrements x)[indexObs (sched ! it) :=
                     dsub (snd (ess_reduce E (logWeights x))) (logLikelihood x)]"
    by (simp add: step_exit_def Let_def split: prod.splits)
  have e3: "indexObs (sched ! it) < length (logIncrements x)
                \<longrightarrow> logIncrements (step_exit E sched it x) ! indexObs (sched ! it)
                    = dsub (snd (ess_reduce E (logWeights x))) (logLikelihood x)"
    by (simp add: e2)
  have e4: "logLikelihood (step_exit E sched it x) = snd (ess_reduce E (logWeights x))"
    by (simp add: step_exit_def Let_def split: prod.splits)
  have e5: "logWeights (step_exit E sched it x) = logWeights x"
    by (simp add: step_exit_def Let_def split: prod.splits)
  have exit_part: "ess (step_exit E sched it x) = fst (ess_reduce E (logWeights x))
           \<and> logIncrements (step_exit E sched it x)
                = (logIncrements x)[indexObs (sched ! it) :=
                     dsub (snd (ess_reduce E (logWeights x))) (logLikelihood x)]
           \<and> (indexObs (sched ! it) < length (logIncrements x)
                \<longrightarrow> logIncrements (step_exit E sched it x) ! indexObs (sched ! it)
                    = dsub (snd (ess_reduce E (logWeights x))) (logLikelihood x))
           \<and> logLikelihood (step_exit E sched it x) = snd (ess_reduce E (logWeights x))
           \<and> logWeights (step_exit E sched it x) = logWeights x"
    by (rule conjI [OF e1 conjI [OF e2 conjI [OF e3 conjI [OF e4 e5]]]])
  show ?thesis
    by (rule conjI [OF loop_part conjI [OF head_part conjI [OF advance_part exit_part]]])
qed

theorem step_repeats_until_observed_witness:
  "size_invariant example_population
   \<and> 0 < size_of example_population
   \<and> (0::nat) + 1 < 4
   \<and> (\<exists>n sir' rng' s' iter' i1.
        0 < n
        \<and> step_passes example_collaborators example_schedule 0 4 n
               (example_sampler 1 False, 0, example_population, 0, None)
            = Inr (sir', rng', s', iter', i1)
        \<and> (iter' + 1 = 4 \<or> isObserved (example_schedule ! iter'))
        \<and> step example_collaborators example_schedule 0 0 4
               (example_sampler 1 False, 0, example_population)
            = Some (Inr (sir', rng', step_exit example_collaborators example_schedule iter' s', iter')))
   \<and> indexObs (example_schedule ! 2) < length (logIncrements example_population)
   \<and> logIncrements (step_exit example_collaborators example_schedule 2 example_population)
         ! indexObs (example_schedule ! 2)
       = dsub (snd (ess_reduce example_collaborators (logWeights example_population)))
              (logLikelihood example_population)
   \<and> logLikelihood (step_exit example_collaborators example_schedule 2 example_population)
       = snd (ess_reduce example_collaborators (logWeights example_population))"
proof -
  have h1: "filter_advances example_collaborators example_schedule 4"
    by (simp add: filter_advances_def example_collaborators_def)
  have h2: "resampler_keeps_size example_collaborators"
    by (simp add: resampler_keeps_size_def example_collaborators_def)
  have h3: "size_invariant example_population"
    by (simp add: size_invariant_def size_of_def example_population_def)
  have h4: "0 < size_of example_population"
    by (simp add: size_of_def example_population_def)
  have h5: "(0::nat) + 1 < 4" by simp
  have h6: "indexObs (example_schedule ! 2) < length (logIncrements example_population)"
    by (simp add: example_schedule_def example_population_def)
  note t = step_repeats_until_observed [OF h1 h2 h3 h4 h5, where first = 0
        and sir = "example_sampler 1 False" and rng = 0 and it = 2 and x = example_population]
  have c1: "\<exists>n sir' rng' s' iter' i1.
        0 < n
        \<and> step_passes example_collaborators example_schedule 0 4 n
               (example_sampler 1 False, 0, example_population, 0, None)
            = Inr (sir', rng', s', iter', i1)
        \<and> (iter' + 1 = 4 \<or> isObserved (example_schedule ! iter'))
        \<and> step example_collaborators example_schedule 0 0 4
               (example_sampler 1 False, 0, example_population)
            = Some (Inr (sir', rng', step_exit example_collaborators example_schedule iter' s', iter'))"
    using conjunct1 [OF t] by blast
  note e = conjunct2 [OF conjunct2 [OF conjunct2 [OF t]]]
  from e h6 have c2: "logIncrements (step_exit example_collaborators example_schedule 2 example_population)
         ! indexObs (example_schedule ! 2)
       = dsub (snd (ess_reduce example_collaborators (logWeights example_population)))
              (logLikelihood example_population)"
    by blast
  from e have c3: "logLikelihood (step_exit example_collaborators example_schedule 2 example_population)
       = snd (ess_reduce example_collaborators (logWeights example_population))"
    by blast
  from h3 h4 h5 h6 c1 c2 c3 show ?thesis by blast
qed

section \<open>The order of the particles\<close>

lemma init_particle_slot:
  "init_particle E now inInit p (rng, s) =
     (case init_slot E now inInit rng (s1s s ! p) (out1s s ! p) of
        (rng', s1', out1') \<Rightarrow> (rng', write_init_slot p s1' out1' s))"
  by (simp add: init_particle_def init_slot_def write_init_slot_def Let_def split: prod.splits)

lemma advance_particle_slot:
  "advance_particle E sched iter lst p (rng, s, i1) =
     (case filter_step E rng sched iter lst (s1s s ! p) (out1s s ! p) of
        (rng', iter1, s1', out1') \<Rightarrow>
          (rng', write_advance_slot sched p iter1 s1' out1' s, Some iter1))"
  by (simp add: advance_particle_def write_advance_slot_def Let_def split: prod.splits)

lemma init_slot_generator:
  "generator_untouched E \<Longrightarrow> fst (init_slot E now inInit rng s1 out1) = rng"
proof -
  assume g: "generator_untouched E"
  obtain rng1 a b where i: "filter_init E rng now s1 out1 inInit = (rng1, a, b)"
    by (cases "filter_init E rng now s1 out1 inInit") auto
  obtain rng2 c where co: "filter_correct E rng1 now a = (rng2, c)"
    by (cases "filter_correct E rng1 now a") auto
  have r1: "rng1 = rng" using g i unfolding generator_untouched_def by (metis fst_conv)
  have r2: "rng2 = rng1" using g co unfolding generator_untouched_def by (metis fst_conv)
  have i': "filter_init E rng now s1 out1 inInit = (rng, a, b)" using i r1 by simp
  have co': "filter_correct E rng now a = (rng, c)" using co r1 r2 by simp
  show ?thesis by (simp add: init_slot_def i' co')
qed

lemma init_particle_commute:
  assumes g: "generator_untouched E"
  shows "init_particle E now inInit x (init_particle E now inInit y st)
       = init_particle E now inInit y (init_particle E now inInit x st)"
proof (cases "x = y")
  case True
  then show ?thesis by simp
next
  case False
  obtain rng s where st: "st = (rng, s)" by (cases st) auto
  obtain ax bx where ix: "init_slot E now inInit rng (s1s s ! x) (out1s s ! x) = (rng, ax, bx)"
    using init_slot_generator [OF g, of now inInit rng "s1s s ! x" "out1s s ! x"]
    by (cases "init_slot E now inInit rng (s1s s ! x) (out1s s ! x)") auto
  obtain ay "by" where iy: "init_slot E now inInit rng (s1s s ! y) (out1s s ! y) = (rng, ay, by)"
    using init_slot_generator [OF g, of now inInit rng "s1s s ! y" "out1s s ! y"]
    by (cases "init_slot E now inInit rng (s1s s ! y) (out1s s ! y)") auto
  have x: "init_particle E now inInit x (rng, s) = (rng, write_init_slot x ax bx s)"
    by (simp add: init_particle_slot ix)
  have y: "init_particle E now inInit y (rng, s) = (rng, write_init_slot y ay by s)"
    by (simp add: init_particle_slot iy)
  have xy: "init_particle E now inInit x (rng, write_init_slot y ay by s)
      = (rng, write_init_slot x ax bx (write_init_slot y ay by s))"
    using False by (simp add: init_particle_slot write_init_slot_def ix)
  have yx: "init_particle E now inInit y (rng, write_init_slot x ax bx s)
      = (rng, write_init_slot y ay by (write_init_slot x ax bx s))"
    using False by (simp add: init_particle_slot write_init_slot_def iy)
  have "write_init_slot x ax bx (write_init_slot y ay by s)
      = write_init_slot y ay by (write_init_slot x ax bx s)"
    using False by (simp add: write_init_slot_def list_update_swap [of x y])
  then show ?thesis by (simp add: st x y xy yx)
qed

lemma advance_particle_population:
  "population_of (advance_particle E sched iter lst p st)
     = advance_population E sched iter lst p (population_of st)"
proof -
  obtain rng s i1 where st: "st = (rng, s, i1)" by (cases st) auto
  show ?thesis
    unfolding st
    by (simp add: advance_particle_slot advance_population_def population_of_def
        split: prod.splits)
qed

lemma advance_particles_population:
  "population_of (fold (advance_particle E sched iter lst) ps st)
     = fold (advance_population E sched iter lst) ps (population_of st)"
  by (induction ps arbitrary: st) (simp_all add: advance_particle_population)

lemma advance_population_commute:
  assumes g: "generator_untouched E"
  shows "advance_population E sched iter lst x (advance_population E sched iter lst y st)
       = advance_population E sched iter lst y (advance_population E sched iter lst x st)"
proof (cases "x = y")
  case True
  then show ?thesis by simp
next
  case False
  obtain rng s where st: "st = (rng, s)" by (cases st) auto
  obtain itx ax bx where ix:
    "filter_step E rng sched iter lst (s1s s ! x) (out1s s ! x) = (rng, itx, ax, bx)"
    using g unfolding generator_untouched_def
    by (cases "filter_step E rng sched iter lst (s1s s ! x) (out1s s ! x)") (metis fst_conv)
  obtain ity ay "by" where iy:
    "filter_step E rng sched iter lst (s1s s ! y) (out1s s ! y) = (rng, ity, ay, by)"
    using g unfolding generator_untouched_def
    by (cases "filter_step E rng sched iter lst (s1s s ! y) (out1s s ! y)") (metis fst_conv)
  have x: "advance_population E sched iter lst x (rng, s)
      = (rng, write_advance_slot sched x itx ax bx s)"
    by (simp add: advance_population_def ix)
  have y: "advance_population E sched iter lst y (rng, s)
      = (rng, write_advance_slot sched y ity ay by s)"
    by (simp add: advance_population_def iy)
  have xy: "advance_population E sched iter lst x (rng, write_advance_slot sched y ity ay by s)
      = (rng, write_advance_slot sched x itx ax bx (write_advance_slot sched y ity ay by s))"
    using False by (simp add: advance_population_def write_advance_slot_def ix)
  have yx: "advance_population E sched iter lst y (rng, write_advance_slot sched x itx ax bx s)
      = (rng, write_advance_slot sched y ity ay by (write_advance_slot sched x itx ax bx s))"
    using False by (simp add: advance_population_def write_advance_slot_def iy)
  have "write_advance_slot sched x itx ax bx (write_advance_slot sched y ity ay by s)
      = write_advance_slot sched y ity ay by (write_advance_slot sched x itx ax bx s)"
    using False by (simp add: write_advance_slot_def list_update_swap [of x y])
  then show ?thesis by (simp add: st x y xy yx)
qed

text \<open>
  C9, as the code has it. An iteration of the loop of \<^verbatim>\<open>init\<close>, and of the inner loop of
  \<^verbatim>\<open>step\<close>, reads the generator and the particle's own state, output buffer and
  log-weight, and writes the generator and the particle's own slots (in \<^verbatim>\<open>step\<close> also
  the local \<^verbatim>\<open>iter1\<close>); in \<^verbatim>\<open>step\<close> every particle's \<^verbatim>\<open>filter.step\<close> starts from
  the position \<open>iter\<close> of the pass, whatever \<^verbatim>\<open>iter1\<close> was. The generator is shared: it
  goes from one iteration to the next. When the filter's operations return the generator
  as they received it, the population (and the generator) that either loop leaves is the
  same for every order of the indices.
\<close>

theorem particle_loops_order:
  "init_particle E now inInit p (rng, s) =
     (case init_slot E now inInit rng (s1s s ! p) (out1s s ! p) of
        (rng', s1', out1') \<Rightarrow> (rng', write_init_slot p s1' out1' s))
   \<and> advance_particle E sched iter lst p (rng, s, i1) =
     (case filter_step E rng sched iter lst (s1s s ! p) (out1s s ! p) of
        (rng', iter1, s1', out1') \<Rightarrow>
          (rng', write_advance_slot sched p iter1 s1' out1' s, Some iter1))
   \<and> (generator_untouched E \<and> mset order = mset [0..<size_of s]
        \<longrightarrow> fold (init_particle E now inInit) order (rng, s)
            = fold (init_particle E now inInit) [0..<size_of s] (rng, s))
   \<and> (generator_untouched E \<and> mset order = mset [0..<size_of s]
        \<longrightarrow> fst (fold (advance_particle E sched iter lst) order (rng, s, i1))
              = fst (fold (advance_particle E sched iter lst) [0..<size_of s] (rng, s, i1))
            \<and> fst (snd (fold (advance_particle E sched iter lst) order (rng, s, i1)))
              = fst (snd (fold (advance_particle E sched iter lst) [0..<size_of s] (rng, s, i1))))"
proof -
  have a: "fold (init_particle E now inInit) order (rng, s)
            = fold (init_particle E now inInit) [0..<size_of s] (rng, s)"
    if "generator_untouched E \<and> mset order = mset [0..<size_of s]"
  proof -
    have "fold (init_particle E now inInit) order = fold (init_particle E now inInit) [0..<size_of s]"
    proof (rule fold_multiset_equiv)
      show "init_particle E now inInit x \<circ> init_particle E now inInit y
          = init_particle E now inInit y \<circ> init_particle E now inInit x" for x y
        using that init_particle_commute [of E now inInit] by (auto simp: fun_eq_iff)
      show "mset order = mset [0..<size_of s]" using that by simp
    qed
    then show ?thesis by simp
  qed
  have b: "fst (fold (advance_particle E sched iter lst) order (rng, s, i1))
              = fst (fold (advance_particle E sched iter lst) [0..<size_of s] (rng, s, i1))
            \<and> fst (snd (fold (advance_particle E sched iter lst) order (rng, s, i1)))
              = fst (snd (fold (advance_particle E sched iter lst) [0..<size_of s] (rng, s, i1)))"
    if "generator_untouched E \<and> mset order = mset [0..<size_of s]"
  proof -
    have "fold (advance_population E sched iter lst) order
        = fold (advance_population E sched iter lst) [0..<size_of s]"
    proof (rule fold_multiset_equiv)
      show "advance_population E sched iter lst x \<circ> advance_population E sched iter lst y
          = advance_population E sched iter lst y \<circ> advance_population E sched iter lst x" for x y
        using that advance_population_commute [of E sched iter lst] by (auto simp: fun_eq_iff)
      show "mset order = mset [0..<size_of s]" using that by simp
    qed
    then have "population_of (fold (advance_particle E sched iter lst) order (rng, s, i1))
        = population_of (fold (advance_particle E sched iter lst) [0..<size_of s] (rng, s, i1))"
      by (simp add: advance_particles_population)
    then show ?thesis by (simp add: population_of_def)
  qed
  have c: "init_particle E now inInit p (rng, s) =
     (case init_slot E now inInit rng (s1s s ! p) (out1s s ! p) of
        (rng', s1', out1') \<Rightarrow> (rng', write_init_slot p s1' out1' s))"
    by (rule init_particle_slot)
  have d: "advance_particle E sched iter lst p (rng, s, i1) =
     (case filter_step E rng sched iter lst (s1s s ! p) (out1s s ! p) of
        (rng', iter1, s1', out1') \<Rightarrow>
          (rng', write_advance_slot sched p iter1 s1' out1' s, Some iter1))"
    by (rule advance_particle_slot)
  from a have a': "generator_untouched E \<and> mset order = mset [0..<size_of s]
        \<longrightarrow> fold (init_particle E now inInit) order (rng, s)
            = fold (init_particle E now inInit) [0..<size_of s] (rng, s)"
    by blast
  from b have b': "generator_untouched E \<and> mset order = mset [0..<size_of s]
        \<longrightarrow> fst (fold (advance_particle E sched iter lst) order (rng, s, i1))
              = fst (fold (advance_particle E sched iter lst) [0..<size_of s] (rng, s, i1))
            \<and> fst (snd (fold (advance_particle E sched iter lst) order (rng, s, i1)))
              = fst (snd (fold (advance_particle E sched iter lst) [0..<size_of s] (rng, s, i1)))"
    by blast
  show ?thesis
    by (rule conjI [OF c conjI [OF d conjI [OF a' b']]])
qed

theorem particle_loops_order_witness:
  "generator_untouched example_deterministic
   \<and> mset [1, 0] = mset [0..<size_of example_population]
   \<and> fold (init_particle example_deterministic (example_schedule ! 0) ()) [1, 0]
         (0, example_population)
       = fold (init_particle example_deterministic (example_schedule ! 0) ())
           [0..<size_of example_population] (0, example_population)
   \<and> fst (snd (fold (advance_particle example_deterministic example_schedule 0 4) [1, 0]
         (0, example_population, None)))
       = fst (snd (fold (advance_particle example_deterministic example_schedule 0 4)
           [0..<size_of example_population] (0, example_population, None)))"
proof -
  have h1: "generator_untouched example_deterministic"
    by (simp add: generator_untouched_def example_deterministic_def example_collaborators_def)
  have h3: "mset [1, 0] = mset [0..<size_of example_population]"
    by (simp add: size_of_def example_population_def upt_rec)
  note t = particle_loops_order [where E = example_deterministic and order = "[1, 0]"
      and s = example_population and rng = 0 and now = "example_schedule ! 0" and inInit = "()"
      and sched = example_schedule and iter = 0 and lst = 4 and ?i1.0 = None and p = 0]
  note t3 = conjunct1 [OF conjunct2 [OF conjunct2 [OF t]]]
  note t4 = conjunct2 [OF conjunct2 [OF conjunct2 [OF t]]]
  from t3 h1 h3 have c1: "fold (init_particle example_deterministic (example_schedule ! 0) ()) [1, 0]
         (0, example_population)
       = fold (init_particle example_deterministic (example_schedule ! 0) ())
           [0..<size_of example_population] (0, example_population)"
    by blast
  from t4 h1 h3 have c2: "fst (snd (fold (advance_particle example_deterministic example_schedule 0 4) [1, 0]
         (0, example_population, None)))
       = fst (snd (fold (advance_particle example_deterministic example_schedule 0 4)
           [0..<size_of example_population] (0, example_population, None)))"
    by blast
  from h1 h3 c1 c2 show ?thesis by blast
qed

text \<open>
  C9 as the specification states it fails: with a filter whose \<^verbatim>\<open>init\<close> draws from the generator,
  running the loop of \<^verbatim>\<open>init\<close> over two particles in the order 0, 1 or in the order 1, 0
  gives different log-weights.
\<close>

theorem init_order_matters:
  "logWeights (snd (fold (init_particle example_collaborators (example_schedule ! 0) ())
                      [0, 1] (0, example_population))) = [Fin 0, Fin 1]
   \<and> logWeights (snd (fold (init_particle example_collaborators (example_schedule ! 0) ())
                      [1, 0] (0, example_population))) = [Fin 1, Fin 0]
   \<and> fold (init_particle example_collaborators (example_schedule ! 0) ()) [1, 0]
         (0, example_population)
       \<noteq> fold (init_particle example_collaborators (example_schedule ! 0) ()) [0, 1]
           (0, example_population)"
proof -
  have a: "logWeights (snd (fold (init_particle example_collaborators (example_schedule ! 0) ())
                      [0, 1] (0, example_population))) = [Fin 0, Fin 1]"
    by (simp add: init_particle_def example_collaborators_def example_population_def
        example_particle_def Let_def)
  have b: "logWeights (snd (fold (init_particle example_collaborators (example_schedule ! 0) ())
                      [1, 0] (0, example_population))) = [Fin 1, Fin 0]"
    by (simp add: init_particle_def example_collaborators_def example_population_def
        example_particle_def Let_def)
  have c: "fold (init_particle example_collaborators (example_schedule ! 0) ()) [1, 0]
         (0, example_population)
       \<noteq> fold (init_particle example_collaborators (example_schedule ! 0) ()) [0, 1]
           (0, example_population)"
  proof
    assume "fold (init_particle example_collaborators (example_schedule ! 0) ()) [1, 0]
         (0, example_population)
       = fold (init_particle example_collaborators (example_schedule ! 0) ()) [0, 1]
           (0, example_population)"
    then have "[Fin 1, Fin 0] = [Fin 0, Fin (1::real)]" using a b by simp
    then show False by simp
  qed
  from a b c show ?thesis by blast
qed

end
